theory Spec2Isabelle
  imports Main "HOL-Library.Word" "HOL-Library.Char_ord" "HOL-Library.List_Lexorder"
begin

unbundle bit_operations_syntax

section \<open>Go runtime outcomes and library helpers\<close>

text \<open>
  A Go computation of the launcher either returns, panics at run time, or ends the whole
  process through \<open>log.Fatalln\<close> (\<open>check\<close>, \<open>failOnError\<close>).
\<close>

datatype panic = SliceBoundsOutOfRange | IndexOutOfRange | AssignmentToNilMap | WatcherError

datatype 'a exec = Panic panic | Fatal | Done 'a

datatype errno = ENOENT | ESRCH | EACCES | EIO

type_synonym 'a result = "errno + 'a"

subsection \<open>strconv\<close>

fun decimal :: "nat \<Rightarrow> string" where
  "decimal n = (if n < 10 then [''0123456789'' ! n]
                else decimal (n div 10) @ [''0123456789'' ! (n mod 10)])"

declare decimal.simps [simp del]

definition Itoa :: "int \<Rightarrow> string" where
  "Itoa i = (if i < 0 then CHR ''-'' # decimal (nat (- i)) else decimal (nat i))"

definition isDigit :: "char \<Rightarrow> bool" where
  "isDigit c = (48 \<le> (of_char c :: nat) \<and> (of_char c :: nat) \<le> 57)"

definition digitsValue :: "string \<Rightarrow> nat" where
  "digitsValue ds = foldl (\<lambda>acc c. 10 * acc + ((of_char c :: nat) - 48)) 0 ds"

text \<open>
  \<open>strconv.Atoi\<close> on a 64-bit platform: an optional sign, then one or more decimal
  digits, and a value that fits \<open>int\<close>; anything else is an error (\<open>None\<close>).
\<close>

definition Atoi :: "string \<Rightarrow> int option" where
  "Atoi s =
     (let neg = (s \<noteq> [] \<and> hd s = CHR ''-'');
          ds = (if s \<noteq> [] \<and> (hd s = CHR ''-'' \<or> hd s = CHR ''+'') then tl s else s)
      in if ds = [] \<or> \<not> list_all isDigit ds then None
         else (let v = (if neg then - int (digitsValue ds) else int (digitsValue ds))
               in if - (2 ^ 63) \<le> v \<and> v < 2 ^ 63 then Some v else None))"

subsection \<open>strings and bytes\<close>

text \<open>White space as \<open>strings.TrimSpace\<close> and \<open>fmt\<close> see it on ASCII bytes.\<close>

definition isSpace :: "char \<Rightarrow> bool" where
  "isSpace c = ((of_char c :: nat) \<in> {9, 10, 11, 12, 13, 32})"

definition TrimSpace :: "string \<Rightarrow> string" where
  "TrimSpace s = rev (dropWhile isSpace (rev (dropWhile isSpace s)))"

text \<open>\<open>strings.Split\<close> for a one-byte separator: \<open>Split "" sep\<close> is \<open>[""]\<close>.\<close>

fun Split :: "string \<Rightarrow> char \<Rightarrow> string list" where
  "Split [] sep = [[]]"
| "Split (c # cs) sep =
     (if c = sep then [] # Split cs sep
      else (case Split cs sep of [] \<Rightarrow> [[c]] | x # xs \<Rightarrow> (c # x) # xs))"

definition NUL :: char where
  "NUL = CHR 0x00"

definition TrimRight :: "string \<Rightarrow> char \<Rightarrow> string" where
  "TrimRight s c = rev (dropWhile (\<lambda>x. x = c) (rev s))"

definition Replace :: "string \<Rightarrow> char \<Rightarrow> char \<Rightarrow> string" where
  "Replace s old new = map (\<lambda>x. if x = old then new else x) s"

text \<open>A Go slice expression \<open>s[lo:hi]\<close> on a string, with its bounds check.\<close>

definition sliceStr :: "string \<Rightarrow> int \<Rightarrow> int \<Rightarrow> string exec" where
  "sliceStr s lo hi =
     (if 0 \<le> lo \<and> lo \<le> hi \<and> hi \<le> int (length s)
      then Done (take (nat (hi - lo)) (drop (nat lo) s))
      else Panic SliceBoundsOutOfRange)"

subsection \<open>fmt.Sscanf with the format of the stat line\<close>

text \<open>
  \<open>fmt.Sscanf(s, "%d %s %s %d", &procPid, &procName, &procStatus, &procPpid)\<close>. Each verb
  skips blanks, a newline in the input is an error, \<open>%s\<close> takes the bytes up to the next
  white space, and \<open>%d\<close> an optionally signed decimal number. Scanning stops at the first
  verb that fails; the operands of that verb and of the later ones keep their zero value.
  The error that \<open>Sscanf\<close> returns is dropped by the caller.
\<close>

definition newline :: char where
  "newline = CHR 0x0A"

definition scanSpaces :: "string \<Rightarrow> string" where
  "scanSpaces s = dropWhile (\<lambda>c. isSpace c \<and> c \<noteq> newline) s"

definition scanInt :: "string \<Rightarrow> (int \<times> string) option" where
  "scanInt s =
     (let s1 = scanSpaces s;
          sgn = (if s1 \<noteq> [] \<and> (hd s1 = CHR ''-'' \<or> hd s1 = CHR ''+'') then [hd s1] else []);
          s2 = drop (length sgn) s1;
          ds = takeWhile isDigit s2
      in case Atoi (sgn @ ds) of
           None \<Rightarrow> None
         | Some v \<Rightarrow> Some (v, drop (length ds) s2))"

definition scanString :: "string \<Rightarrow> (string \<times> string) option" where
  "scanString s =
     (let s1 = scanSpaces s
      in if s1 = [] \<or> hd s1 = newline then None
         else Some (takeWhile (\<lambda>c. \<not> isSpace c) s1, dropWhile (\<lambda>c. \<not> isSpace c) s1))"

definition scanFormatSpace :: "string \<Rightarrow> string option" where
  "scanFormatSpace s =
     (case s of
        [] \<Rightarrow> Some []
      | c # cs \<Rightarrow> if \<not> isSpace c \<or> c = newline then None else Some (scanSpaces s))"

definition Sscanf_d_s_s_d :: "string \<Rightarrow> int \<times> string \<times> string \<times> int" where
  "Sscanf_d_s_s_d s =
     (case scanInt s of
        None \<Rightarrow> (0, [], [], 0)
      | Some (procPid, s1) \<Rightarrow>
          (case Option.bind (scanFormatSpace s1) scanString of
             None \<Rightarrow> (procPid, [], [], 0)
           | Some (procName, s2) \<Rightarrow>
               (case Option.bind (scanFormatSpace s2) scanString of
                  None \<Rightarrow> (procPid, procName, [], 0)
                | Some (procStatus, s3) \<Rightarrow>
                    (case Option.bind (scanFormatSpace s3) scanInt of
                       None \<Rightarrow> (procPid, procName, procStatus, 0)
                     | Some (procPpid, s4) \<Rightarrow> (procPid, procName, procStatus, procPpid)))))"

section \<open>The file system as the launcher sees it\<close>

text \<open>
  One snapshot of the operating system's answers. \<open>Readlink\<close> and \<open>Lstat\<close> are the calls
  of package \<open>os\<close>; \<open>ReadFile\<close> gives data and error, as \<open>ioutil.ReadFile\<close> returns both.
  \<open>StatL\<close> is the inode that \<open>stat -L\<close> finds for a path (\<open>None\<close> when it fails) and
  \<open>FindEntries mp\<close> the inodes and paths that \<open>find -L mp -mount\<close> visits. \<open>FileCmd\<close> is
  the standard output of the \<open>file\<close> command, \<open>Sha1Hex\<close> the SHA-1 of a content in
  hexadecimal, \<open>ModeString\<close> the text of an \<open>os.FileMode\<close>. \<open>ArtifactDirReady\<close> says that
  the artifact directory exists or can be made, \<open>WriteFile\<close> gives the error of writing a
  file, if any.
\<close>

record fileStat =
  st_Mode :: "32 word"
  st_Size :: "64 word"

record fsys =
  Readlink :: "string \<Rightarrow> string result"
  ReadFile :: "string \<Rightarrow> string \<times> errno option"
  Lstat :: "string \<Rightarrow> fileStat result"
  StatL :: "string \<Rightarrow> int option"
  FindEntries :: "string \<Rightarrow> (int \<times> string) list"
  FileCmd :: "string \<Rightarrow> string result"
  Sha1Hex :: "string \<Rightarrow> string"
  ModeString :: "32 word \<Rightarrow> string"
  ArtifactDirReady :: bool
  WriteFile :: "string \<Rightarrow> errno option"

section \<open>Process introspector\<close>

record processInfo =
  pi_Pid :: "32 word"
  pi_Name :: string
  Path :: string
  Cmd :: string
  Cwd :: string
  Root :: string
  ParentPid :: "32 word"

definition procFilePath :: "int \<Rightarrow> string \<Rightarrow> string" where
  "procFilePath pid key = ''/proc/'' @ Itoa pid @ ''/'' @ key"

text \<open>
  \<open>getProcessInfo\<close> returns \<open>(nil, err)\<close> as \<open>Done (Inl err)\<close> and \<open>(info, nil)\<close> as
  \<open>Done (Inr info)\<close>. The error of the read of \<open>stat\<close> is assigned and never tested; the
  slice of \<open>procName\<close> is bounds-checked by the runtime.
\<close>

definition getProcessInfo :: "fsys \<Rightarrow> 32 word \<Rightarrow> (processInfo result) exec" where
  "getProcessInfo fs pid =
     (case Readlink fs (procFilePath (sint pid) ''exe'') of
        Inl err \<Rightarrow> Done (Inl err)
      | Inr path \<Rightarrow>
     (case Readlink fs (procFilePath (sint pid) ''cwd'') of
        Inl err \<Rightarrow> Done (Inl err)
      | Inr cwd \<Rightarrow>
     (case Readlink fs (procFilePath (sint pid) ''root'') of
        Inl err \<Rightarrow> Done (Inl err)
      | Inr root \<Rightarrow>
     (case ReadFile fs (procFilePath (sint pid) ''cmdline'') of
        (rawCmdline, Some err) \<Rightarrow> Done (Inl err)
      | (rawCmdline, None) \<Rightarrow>
          (let cmd = (if length rawCmdline > 0
                      then Replace (TrimRight rawCmdline NUL) NUL CHR '' '' else []);
               (stat, err) = ReadFile fs (procFilePath (sint pid) ''stat'');
               (procPid, procName, procStatus, procPpid) = Sscanf_d_s_s_d stat
           in case sliceStr procName 1 (int (length procName) - 1) of
                Panic p \<Rightarrow> Panic p
              | Fatal \<Rightarrow> Fatal
              | Done name \<Rightarrow>
                  Done (Inr \<lparr>pi_Pid = pid, pi_Name = name, Path = path, Cmd = cmd, Cwd = cwd,
                            Root = root, ParentPid = word_of_int procPpid\<rparr>))))))"

section \<open>Event aggregator\<close>

record event =
  ID :: "32 word"
  Pid :: "32 word"
  File :: string
  IsRead :: bool
  IsWrite :: bool

record fileInfo =
  fi_EventCount :: "32 word"
  FirstEventID :: "32 word"
  fi_Name :: string
  ReadCount :: "32 word"
  WriteCount :: "32 word"
  ExeCount :: "32 word"

text \<open>
  \<open>Processes\<close> is \<open>None\<close> while the Go map is nil: the report is built without it and
  only the branch of the first event allocates it. \<open>ProcessFiles\<close> is allocated with
  the report.
\<close>

record monitorReport =
  MonitorPid :: int
  MonitorParentPid :: int
  EventCount :: "32 word"
  MainProcess :: "processInfo option"
  Processes :: "(string \<rightharpoonup> processInfo) option"
  ProcessFiles :: "string \<rightharpoonup> (string \<rightharpoonup> fileInfo)"

definition newReport :: "int \<Rightarrow> int \<Rightarrow> monitorReport" where
  "newReport mpid mppid =
     \<lparr>MonitorPid = mpid, MonitorParentPid = mppid, EventCount = 0, MainProcess = None,
      Processes = None, ProcessFiles = Map.empty\<rparr>"

text \<open>Reading a nil map finds nothing; assigning to an entry of a nil map panics.\<close>

definition mapLookup :: "('k \<rightharpoonup> 'v) option \<Rightarrow> 'k \<Rightarrow> 'v option" where
  "mapLookup m k = (case m of None \<Rightarrow> None | Some f \<Rightarrow> f k)"

definition mapAssign :: "('k \<rightharpoonup> 'v) option \<Rightarrow> 'k \<Rightarrow> 'v \<Rightarrow> (('k \<rightharpoonup> 'v) option) exec" where
  "mapAssign m k v = (case m of None \<Rightarrow> Panic AssignmentToNilMap | Some f \<Rightarrow> Done (Some (f(k \<mapsto> v))))"

definition pidKey :: "event \<Rightarrow> string" where
  "pidKey e = Itoa (sint (Pid e))"

text \<open>The first half of the loop body: the counter and the process record.\<close>

definition recordProcess :: "fsys \<Rightarrow> event \<Rightarrow> monitorReport \<Rightarrow> monitorReport exec" where
  "recordProcess fs e report0 =
     (let report = report0\<lparr>EventCount := EventCount report0 + 1\<rparr>
      in if ID e = 1 then
           (case getProcessInfo fs (Pid e) of
              Panic p \<Rightarrow> Panic p
            | Fatal \<Rightarrow> Fatal
            | Done (Inl err) \<Rightarrow> Done report
            | Done (Inr pinfo) \<Rightarrow>
                Done (report\<lparr>MainProcess := Some pinfo,
                             Processes := Some (Map.empty(pidKey e \<mapsto> pinfo))\<rparr>))
         else
           (case mapLookup (Processes report) (pidKey e) of
              Some found \<Rightarrow> Done report
            | None \<Rightarrow>
                (case getProcessInfo fs (Pid e) of
                   Panic p \<Rightarrow> Panic p
                 | Fatal \<Rightarrow> Fatal
                 | Done (Inl err) \<Rightarrow> Done report
                 | Done (Inr pinfo) \<Rightarrow>
                     (case mapAssign (Processes report) (pidKey e) pinfo of
                        Panic p \<Rightarrow> Panic p
                      | Fatal \<Rightarrow> Fatal
                      | Done ps \<Rightarrow> Done (report\<lparr>Processes := ps\<rparr>)))))"

text \<open>The second half: the per-process file map and the counters of the file record.\<close>

definition isExe :: "monitorReport \<Rightarrow> event \<Rightarrow> bool" where
  "isExe report e =
     (case mapLookup (Processes report) (pidKey e) of
        None \<Rightarrow> False
      | Some pi \<Rightarrow> File e = Path pi)"

definition recordFile :: "event \<Rightarrow> monitorReport \<Rightarrow> monitorReport" where
  "recordFile e report =
     (let files = (case ProcessFiles report (pidKey e) of None \<Rightarrow> Map.empty | Some m \<Rightarrow> m);
          fi = (case files (File e) of
                  None \<Rightarrow>
                    \<lparr>fi_EventCount = 1, FirstEventID = 0, fi_Name = File e,
                     ReadCount = (if IsRead e then 1 else 0),
                     WriteCount = (if IsWrite e then 1 else 0),
                     ExeCount = (if isExe report e then 1 else 0)\<rparr>
                | Some existingFi \<Rightarrow>
                    existingFi\<lparr>fi_EventCount := fi_EventCount existingFi + 1,
                               ReadCount := (if IsRead e then ReadCount existingFi + 1
                                             else ReadCount existingFi),
                               WriteCount := (if IsWrite e then WriteCount existingFi + 1
                                              else WriteCount existingFi),
                               ExeCount := (if isExe report e then ExeCount existingFi + 1
                                            else ExeCount existingFi)\<rparr>)
      in report\<lparr>ProcessFiles := (ProcessFiles report)(pidKey e \<mapsto> files(File e \<mapsto> fi))\<rparr>)"

definition processEvent :: "fsys \<Rightarrow> event \<Rightarrow> monitorReport \<Rightarrow> monitorReport exec" where
  "processEvent fs e report =
     (case recordProcess fs e report of
        Panic p \<Rightarrow> Panic p
      | Fatal \<Rightarrow> Fatal
      | Done report1 \<Rightarrow> Done (recordFile e report1))"

text \<open>
  The \<open>select\<close> loop of \<open>listenEvents\<close>: the events received before the stop signal, each
  with the state of \<open>/proc\<close> at the moment it is handled. The report is sent only if no
  step panicked.
\<close>

fun aggregate :: "(fsys \<times> event) list \<Rightarrow> monitorReport \<Rightarrow> monitorReport exec" where
  "aggregate [] report = Done report"
| "aggregate ((fs, e) # rest) report =
     (case processEvent fs e report of
        Panic p \<Rightarrow> Panic p
      | Fatal \<Rightarrow> Fatal
      | Done report1 \<Rightarrow> aggregate rest report1)"

definition listenEvents :: "int \<Rightarrow> int \<Rightarrow> (fsys \<times> event) list \<Rightarrow> monitorReport exec" where
  "listenEvents mpid mppid evs = aggregate evs (newReport mpid mppid)"

section \<open>Notification source\<close>

text \<open>
  Modelled from the spec: the mask bits of the fanotify package, which is imported and not
  part of the sources; the spec calls them the open, access, modify and queue-overflow
  bits, and the values are those of the Linux interface.
\<close>

definition FAN_ACCESS :: "64 word" where
  "FAN_ACCESS = 0x1"

definition FAN_MODIFY :: "64 word" where
  "FAN_MODIFY = 0x2"

definition FAN_OPEN :: "64 word" where
  "FAN_OPEN = 0x20"

definition FAN_Q_OVERFLOW :: "64 word" where
  "FAN_Q_OVERFLOW = 0x4000"

text \<open>
  What \<open>nd.GetEvent()\<close> delivers: the mask, the pid, and the answer that
  \<open>os.Readlink("/proc/self/fd/<fd>")\<close> gives for the delivered file handle.
\<close>

record eventMetadata =
  Mask :: "64 word"
  em_Pid :: "32 word"
  FdLink :: "string result"

definition hasBits :: "64 word \<Rightarrow> 64 word \<Rightarrow> bool" where
  "hasBits m b = (m AND b = b)"

text \<open>One turn of the reader's \<open>for\<close> loop; \<open>check\<close> ends the process on an error.\<close>

definition notifyStep :: "eventMetadata result \<Rightarrow> 32 word \<Rightarrow> (32 word \<times> event option) exec" where
  "notifyStep got eventID =
     (case got of
        Inl err \<Rightarrow> Fatal
      | Inr data \<Rightarrow>
          if hasBits (Mask data) FAN_Q_OVERFLOW then Done (eventID, None)
          else
            (let isRead = hasBits (Mask data) FAN_ACCESS;
                 isWrite = hasBits (Mask data) FAN_MODIFY;
                 doNotify = (hasBits (Mask data) FAN_OPEN \<or> isRead \<or> isWrite)
             in case FdLink data of
                  Inl err \<Rightarrow> Fatal
                | Inr path \<Rightarrow>
                    if doNotify
                    then Done (eventID + 1,
                               Some \<lparr>ID = eventID + 1, Pid = em_Pid data, File = path,
                                     IsRead = isRead, IsWrite = isWrite\<rparr>)
                    else Done (eventID, None)))"

text \<open>
  The reader over the raw events that arrive: the events it sends, in order, and whether
  it ended the process.
\<close>

fun notifyLoop :: "eventMetadata result list \<Rightarrow> 32 word \<Rightarrow> event list \<times> bool" where
  "notifyLoop [] eventID = ([], False)"
| "notifyLoop (got # rest) eventID =
     (case notifyStep got eventID of
        Done (eventID1, out) \<Rightarrow>
          (case notifyLoop rest eventID1 of
             (sent, fatal) \<Rightarrow> ((case out of None \<Rightarrow> sent | Some e \<Rightarrow> e # sent), fatal))
      | Fatal \<Rightarrow> ([], True)
      | Panic p \<Rightarrow> ([], True))"

definition notificationSource :: "eventMetadata result list \<Rightarrow> event list \<times> bool" where
  "notificationSource raws = notifyLoop raws 0"

text \<open>The reading of the claim: which raw events get an id, and which the reader survives.\<close>

definition notifiable :: "eventMetadata result \<Rightarrow> bool" where
  "notifiable got =
     (case got of
        Inl err \<Rightarrow> False
      | Inr data \<Rightarrow>
          \<not> hasBits (Mask data) FAN_Q_OVERFLOW \<and>
          (hasBits (Mask data) FAN_OPEN \<or> hasBits (Mask data) FAN_ACCESS \<or>
           hasBits (Mask data) FAN_MODIFY))"

definition decodable :: "eventMetadata result \<Rightarrow> bool" where
  "decodable got =
     (case got of
        Inl err \<Rightarrow> False
      | Inr data \<Rightarrow> hasBits (Mask data) FAN_Q_OVERFLOW \<or> isl (FdLink data) = False)"

definition payload :: "eventMetadata result \<Rightarrow> 32 word \<times> string \<times> bool \<times> bool" where
  "payload got =
     (case got of
        Inr data \<Rightarrow>
          (em_Pid data, (case FdLink data of Inr path \<Rightarrow> path | Inl err \<Rightarrow> []),
           hasBits (Mask data) FAN_ACCESS, hasBits (Mask data) FAN_MODIFY)
      | Inl err \<Rightarrow> (0, [], False, False))"

section \<open>Fork observer and the start of the monitor\<close>

datatype procEvent = Fork int int | Exec int | Exit int | WatchError

text \<open>
  The loop of \<open>monitorProcess\<close> over the process events received before the stop signal;
  a missing key of the Go map reads as the nil slice.
\<close>

fun forkLoop :: "procEvent list \<Rightarrow> (int \<Rightarrow> int list) \<Rightarrow> (int \<Rightarrow> int list) exec" where
  "forkLoop [] forks = Done forks"
| "forkLoop (Fork parentPid childPid # rest) forks =
     forkLoop rest (forks(parentPid := forks parentPid @ [childPid]))"
| "forkLoop (Exec pid # rest) forks = forkLoop rest forks"
| "forkLoop (Exit pid # rest) forks = forkLoop rest forks"
| "forkLoop (WatchError # rest) forks = Panic WatcherError"

text \<open>
  The kernel subscriptions of the process: the mount points marked for fanotify and the
  number of process-event watchers. \<open>listenEvents\<close> marks its mount point,
  \<open>monitorProcess\<close> opens a watcher, and \<open>monitor\<close> calls \<open>listenEvents\<close> only: its call
  of \<open>monitorProcess\<close> is commented out.
\<close>

record subscriptions =
  fanotifyMarks :: "string list"
  procWatchers :: nat

definition listenEvents_start :: "string \<Rightarrow> subscriptions \<Rightarrow> subscriptions" where
  "listenEvents_start mountPoint subs = subs\<lparr>fanotifyMarks := mountPoint # fanotifyMarks subs\<rparr>"

definition monitorProcess_start :: "subscriptions \<Rightarrow> subscriptions" where
  "monitorProcess_start subs = subs\<lparr>procWatchers := Suc (procWatchers subs)\<rparr>"

definition monitor_start :: "subscriptions \<Rightarrow> subscriptions" where
  "monitor_start subs = listenEvents_start ''/'' subs"

definition forkChildren :: "procEvent list \<Rightarrow> int \<Rightarrow> int list" where
  "forkChildren evs parentPid =
     concat (map (\<lambda>ev. case ev of Fork p c \<Rightarrow> (if p = parentPid then [c] else []) | _ \<Rightarrow> []) evs)"

section \<open>Symlink resolver\<close>

record artifactProps =
  FileType :: int
  FilePath :: string
  Mode :: "32 word"
  ModeText :: string
  LinkRef :: string
  Flags :: "(string \<rightharpoonup> bool) option"
  DataType :: string
  FileSize :: "64 word"
  Sha1Hash :: string
  AppType :: string

text \<open>
  The standard output of the two external commands, from the answers of the file system:
  \<open>stat -L -c %i files...\<close> prints the inode of each operand it can stat, one per line,
  and \<open>find -L mp -mount -printf "%i %p\n"\<close> prints inode, one space and path for each
  entry it visits.
\<close>

definition statOutput :: "fsys \<Rightarrow> string list \<Rightarrow> string" where
  "statOutput fs files =
     concat (map (\<lambda>f. case StatL fs f of None \<Rightarrow> [] | Some i \<Rightarrow> Itoa i @ [newline]) files)"

definition findOutput :: "fsys \<Rightarrow> string \<Rightarrow> string" where
  "findOutput fs mp =
     concat (map (\<lambda>(i, p). Itoa i @ '' '' @ p @ [newline]) (FindEntries fs mp))"

definition filesToInodes :: "fsys \<Rightarrow> string list \<Rightarrow> int list" where
  "filesToInodes fs files =
     List.map_filter (\<lambda>i. Atoi (TrimSpace i)) (Split (statOutput fs files) newline)"

text \<open>
  The first loop of \<open>findSymlinks\<close>: \<open>info[1]\<close> is an index expression, checked by the
  runtime; a missing key of \<open>inodeToFiles\<close> reads as the nil slice.
\<close>

fun inodeIndex :: "string list \<Rightarrow> (int \<Rightarrow> string list) \<Rightarrow> (int \<Rightarrow> string list) exec" where
  "inodeIndex [] inodeToFiles = Done inodeToFiles"
| "inodeIndex (v # rest) inodeToFiles =
     (let info = Split (TrimSpace v) CHR '' ''
      in case Atoi (info ! 0) of
           None \<Rightarrow> inodeIndex rest inodeToFiles
         | Some inode \<Rightarrow>
             if length info < 2 then Panic IndexOutOfRange
             else inodeIndex rest (inodeToFiles(inode := inodeToFiles inode @ [info ! 1])))"

definition findSymlinks :: "fsys \<Rightarrow> string list \<Rightarrow> string \<Rightarrow> (string \<rightharpoonup> artifactProps option) exec" where
  "findSymlinks fs files mp =
     (let out = findOutput fs mp;
          inodes = filesToInodes fs files
      in case inodeIndex (Split out newline) (\<lambda>i. []) of
           Panic p \<Rightarrow> Panic p
         | Fatal \<Rightarrow> Fatal
         | Done inodeToFiles \<Rightarrow>
             Done (foldl (\<lambda>result i. foldl (\<lambda>result f. result(f \<mapsto> None)) result (inodeToFiles i))
                     Map.empty inodes))"

section \<open>Artifact store\<close>

definition dirArtifactType :: int where
  "dirArtifactType = 1"

definition fileArtifactType :: int where
  "fileArtifactType = 2"

definition symlinkArtifactType :: int where
  "symlinkArtifactType = 3"

definition unknownArtifactType :: int where
  "unknownArtifactType = 99"

text \<open>The type bits of \<open>os.FileMode\<close>.\<close>

definition ModeDir :: "32 word" where
  "ModeDir = push_bit 31 1"

definition ModeSymlink :: "32 word" where
  "ModeSymlink = push_bit 27 1"

definition ModeType :: "32 word" where
  "ModeType = push_bit 31 1 OR push_bit 27 1 OR push_bit 25 1 OR push_bit 24 1 OR
              push_bit 26 1 OR push_bit 21 1 OR push_bit 19 1"

definition IsRegular :: "32 word \<Rightarrow> bool" where
  "IsRegular m = (m AND ModeType = 0)"

definition IsDir :: "32 word \<Rightarrow> bool" where
  "IsDir m = (m AND ModeDir \<noteq> 0)"

record artifactStore =
  storeLocation :: string
  monReport :: monitorReport
  rawNames :: "string \<rightharpoonup> artifactProps option"
  nameList :: "string list"
  resolve :: "string set"
  linkMap :: "string \<rightharpoonup> artifactProps"
  fileMap :: "string \<rightharpoonup> artifactProps"

definition newArtifactStore ::
  "string \<Rightarrow> monitorReport \<Rightarrow> (string \<rightharpoonup> artifactProps option) \<Rightarrow> artifactStore" where
  "newArtifactStore loc report names =
     \<lparr>storeLocation = loc, monReport = report, rawNames = names, nameList = [],
      resolve = {}, linkMap = Map.empty, fileMap = Map.empty\<rparr>"

definition getFileHash :: "fsys \<Rightarrow> string \<Rightarrow> string result" where
  "getFileHash fs artifactFileName =
     (case ReadFile fs artifactFileName of
        (fileData, Some err) \<Rightarrow> Inl err
      | (fileData, None) \<Rightarrow> Inr (Sha1Hex fs fileData))"

definition getDataType :: "fsys \<Rightarrow> string \<Rightarrow> string result" where
  "getDataType fs artifactFileName =
     (case FileCmd fs artifactFileName of
        Inl err \<Rightarrow> Inl err
      | Inr cout \<Rightarrow>
          (let typeInfo = Split (TrimSpace cout) CHR '':''
           in if length typeInfo > 1 then Inr (TrimSpace (typeInfo ! 1)) else Inr ''unknown''))"

definition orEmpty :: "string result \<Rightarrow> string" where
  "orEmpty r = (case r of Inl err \<Rightarrow> [] | Inr v \<Rightarrow> v)"

definition anyCount :: "monitorReport \<Rightarrow> string \<Rightarrow> (fileInfo \<Rightarrow> 32 word) \<Rightarrow> bool" where
  "anyCount report artifactFileName count =
     (\<exists>processFileMap \<in> ran (ProcessFiles report).
        \<exists>finfo. processFileMap artifactFileName = Some finfo \<and> count finfo > 0)"

definition getArtifactFlags :: "monitorReport \<Rightarrow> string \<Rightarrow> (string \<rightharpoonup> bool) option" where
  "getArtifactFlags report artifactFileName =
     (let r = anyCount report artifactFileName ReadCount;
          w = anyCount report artifactFileName WriteCount;
          x = anyCount report artifactFileName ExeCount;
          flags = (\<lambda>k. if (k = ''R'' \<and> r) \<or> (k = ''W'' \<and> w) \<or> (k = ''X'' \<and> x)
                       then Some True else None)
      in if \<not> r \<and> \<not> w \<and> \<not> x then None else Some flags)"

definition prepareArtifact :: "fsys \<Rightarrow> string \<Rightarrow> artifactStore \<Rightarrow> artifactStore" where
  "prepareArtifact fs artifactFileName p =
     (case Lstat fs artifactFileName of
        Inl err \<Rightarrow> p
      | Inr srcLinkFileInfo \<Rightarrow>
          (let p1 = p\<lparr>nameList := nameList p @ [artifactFileName]\<rparr>;
               props = \<lparr>FileType = 0, FilePath = artifactFileName,
                        Mode = st_Mode srcLinkFileInfo,
                        ModeText = ModeString fs (st_Mode srcLinkFileInfo),
                        LinkRef = [],
                        Flags = getArtifactFlags (monReport p) artifactFileName,
                        DataType = [], FileSize = st_Size srcLinkFileInfo,
                        Sha1Hash = [], AppType = []\<rparr>
           in if IsRegular (st_Mode srcLinkFileInfo) then
                (let props1 = props\<lparr>FileType := fileArtifactType,
                                     Sha1Hash := orEmpty (getFileHash fs artifactFileName),
                                     DataType := orEmpty (getDataType fs artifactFileName)\<rparr>
                 in p1\<lparr>fileMap := (fileMap p1)(artifactFileName \<mapsto> props1),
                        rawNames := (rawNames p1)(artifactFileName \<mapsto> Some props1)\<rparr>)
              else if st_Mode srcLinkFileInfo AND ModeSymlink \<noteq> 0 then
                (case Readlink fs artifactFileName of
                   Inl err \<Rightarrow> p1
                 | Inr linkRef \<Rightarrow>
                     (let props1 = props\<lparr>FileType := symlinkArtifactType, LinkRef := linkRef\<rparr>
                      in p1\<lparr>resolve := (if linkRef \<in> dom (rawNames p1) then resolve p1
                                         else insert linkRef (resolve p1)),
                             linkMap := (linkMap p1)(artifactFileName \<mapsto> props1),
                             rawNames := (rawNames p1)(artifactFileName \<mapsto> Some props1)\<rparr>))
              else if IsDir (st_Mode srcLinkFileInfo) then
                (let props1 = props\<lparr>FileType := dirArtifactType\<rparr> in p1)
              else p1))"

text \<open>
  Go ranges over a map in an order of its own choosing: \<open>rangeOrder m ks\<close> says that \<open>ks\<close>
  is one such order, every key once. \<open>prepareArtifacts\<close> ranges over \<open>rawNames\<close>, to whose
  existing keys only \<open>prepareArtifact\<close> assigns; \<open>resolveLinks\<close> does nothing.
\<close>

definition rangeOrder :: "('k \<rightharpoonup> 'v) \<Rightarrow> 'k list \<Rightarrow> bool" where
  "rangeOrder m ks = (distinct ks \<and> set ks = dom m)"

definition prepareArtifacts :: "fsys \<Rightarrow> string list \<Rightarrow> artifactStore \<Rightarrow> artifactStore" where
  "prepareArtifacts fs order p = foldl (\<lambda>p artifactFileName. prepareArtifact fs artifactFileName p) p order"

datatype fsop = CopyFile string string | MakeSymlink string string

text \<open>The copies and links that \<open>saveArtifacts\<close> attempts under the store location.\<close>

definition saveArtifacts :: "artifactStore \<Rightarrow> fsop set" where
  "saveArtifacts p =
     (\<lambda>fileName. CopyFile fileName (storeLocation p @ ''/files'' @ fileName)) ` dom (fileMap p) \<union>
     (\<lambda>linkName. MakeSymlink (LinkRef (the (linkMap p linkName)))
                    (storeLocation p @ ''/files'' @ linkName)) ` dom (linkMap p)"

record reportInfo =
  Monitor :: monitorReport
  Files :: "artifactProps option list"

text \<open>
  \<open>saveReport\<close>: the value marshalled into \<open>creport.json\<close>, unless the artifact
  directory cannot be had or the write fails (\<open>check\<close>).
\<close>

definition saveReport :: "fsys \<Rightarrow> artifactStore \<Rightarrow> reportInfo exec" where
  "saveReport fs p =
     (let names = sort (nameList p);
          report = \<lparr>Monitor = monReport p,
                    Files = map (\<lambda>fname. case rawNames p fname of None \<Rightarrow> None | Some props \<Rightarrow> props) names\<rparr>
      in if \<not> ArtifactDirReady fs then Fatal
         else (case WriteFile fs ''/opt/dockerslim/artifacts/creport.json'' of
                 Some err \<Rightarrow> Fatal
               | None \<Rightarrow> Done report))"

definition saveResults ::
  "fsys \<Rightarrow> monitorReport \<Rightarrow> (string \<rightharpoonup> artifactProps option) \<Rightarrow> string list \<Rightarrow> (reportInfo \<times> fsop set) exec" where
  "saveResults fs report fileNames order =
     (let store = prepareArtifacts fs order (newArtifactStore ''/opt/dockerslim/artifacts'' report fileNames)
      in case saveReport fs store of
           Panic p \<Rightarrow> Panic p
         | Fatal \<Rightarrow> Fatal
         | Done written \<Rightarrow> Done (written, saveArtifacts store))"

text \<open>
  What \<open>monitor\<close> does with the report once the stop message has come: \<open>pids\<close> and \<open>paths\<close>
  are the orders in which it ranges over \<open>ProcessFiles\<close> and its inner maps, \<open>order\<close> the
  one in which \<open>prepareArtifacts\<close> ranges over the resolved names.
\<close>

definition monitor_finish ::
  "fsys \<Rightarrow> monitorReport \<Rightarrow> string list \<Rightarrow> (string \<Rightarrow> string list) \<Rightarrow> string list \<Rightarrow>
   (reportInfo \<times> fsop set) exec" where
  "monitor_finish fs report pids paths order =
     (let fileList = concat (map paths pids)
      in case findSymlinks fs fileList ''/'' of
           Panic p \<Rightarrow> Panic p
         | Fatal \<Rightarrow> Fatal
         | Done allFilesMap \<Rightarrow> saveResults fs report allFilesMap order)"

section \<open>Measures and predicates for the properties\<close>

text \<open>Sums over the keys of a map, and over every file record of every process.\<close>

definition mapSum :: "('v \<Rightarrow> 'a::comm_monoid_add) \<Rightarrow> ('k \<rightharpoonup> 'v) \<Rightarrow> 'a" where
  "mapSum g m = (\<Sum>k\<in>dom m. g (the (m k)))"

definition sumOverFiles :: "(fileInfo \<Rightarrow> 'a::comm_monoid_add) \<Rightarrow> monitorReport \<Rightarrow> 'a" where
  "sumOverFiles g report = mapSum (mapSum g) (ProcessFiles report)"

definition finiteFiles :: "monitorReport \<Rightarrow> bool" where
  "finiteFiles report =
     (finite (dom (ProcessFiles report)) \<and> (\<forall>files\<in>ran (ProcessFiles report). finite (dom files)))"

text \<open>The file record of a process and a path, in a report and in what a run delivers.\<close>

definition fileRecord :: "monitorReport \<Rightarrow> string \<Rightarrow> string \<Rightarrow> fileInfo option" where
  "fileRecord report pid path =
     (case ProcessFiles report pid of None \<Rightarrow> None | Some files \<Rightarrow> files path)"

definition deliveredRecord :: "monitorReport exec \<Rightarrow> string \<Rightarrow> string \<Rightarrow> fileInfo option" where
  "deliveredRecord out pid path =
     (case out of Done report \<Rightarrow> fileRecord report pid path | Panic p \<Rightarrow> None | Fatal \<Rightarrow> None)"

definition readsWritesWithinEvents :: "fileInfo \<Rightarrow> bool" where
  "readsWritesWithinEvents fi =
     (unat (ReadCount fi) + unat (WriteCount fi) \<le> unat (fi_EventCount fi))"

text \<open>
  The invariant of the aggregation loop after \<open>n\<close> events: the counter and the file
  records agree, as 32-bit sums always and as numbers while nothing has wrapped.
\<close>

definition countsAgree :: "nat \<Rightarrow> monitorReport \<Rightarrow> bool" where
  "countsAgree n report =
     (finiteFiles report \<and> EventCount report = sumOverFiles fi_EventCount report \<and>
      (n < 2 ^ 32 \<longrightarrow> unat (EventCount report) = n \<and>
                      sumOverFiles (\<lambda>fi. unat (fi_EventCount fi)) report = n))"

text \<open>
  Bounds on one file record after \<open>n\<close> events, and the counters of a record that may not
  exist yet (an absent record counts as zero).
\<close>

definition withinEvents :: "nat \<Rightarrow> fileInfo \<Rightarrow> bool" where
  "withinEvents n fi =
     (unat (fi_EventCount fi) \<le> n \<and> unat (ReadCount fi) \<le> unat (fi_EventCount fi) \<and>
      unat (WriteCount fi) \<le> unat (fi_EventCount fi))"

definition allRecords :: "(fileInfo \<Rightarrow> bool) \<Rightarrow> monitorReport \<Rightarrow> bool" where
  "allRecords ok report = (\<forall>pid path fi. fileRecord report pid path = Some fi \<longrightarrow> ok fi)"

definition counterOf :: "(fileInfo \<Rightarrow> 32 word) \<Rightarrow> fileInfo option \<Rightarrow> 32 word" where
  "counterOf count rec = (case rec of None \<Rightarrow> 0 | Some fi \<Rightarrow> count fi)"

definition readAndWrite :: "event \<Rightarrow> bool" where
  "readAndWrite e = (IsRead e \<and> IsWrite e)"

text \<open>The event that the reader sends for a raw event to which it gives the id \<open>n\<close>.\<close>

definition eventOf :: "32 word \<Rightarrow> eventMetadata result \<Rightarrow> event" where
  "eventOf n got =
     (case payload got of
        (pid, path, isRead, isWrite) \<Rightarrow>
          \<lparr>ID = n, Pid = pid, File = path, IsRead = isRead, IsWrite = isWrite\<rparr>)"

text \<open>Whether a path is a key of the resolver's result.\<close>

definition resolved :: "(string \<rightharpoonup> artifactProps option) exec \<Rightarrow> string \<Rightarrow> bool" where
  "resolved out path = (case out of Done m \<Rightarrow> m path \<noteq> None | Panic p \<Rightarrow> False | Fatal \<Rightarrow> False)"

text \<open>
  Paths that \<open>find\<close> prints on a line of their own in the shape the resolver expects: no
  newline inside and something besides white space (a path under \<open>/\<close> starts with \<open>/\<close>).
\<close>

definition plainPath :: "string \<Rightarrow> bool" where
  "plainPath p = (newline \<notin> set p \<and> \<not> list_all isSpace p)"

definition plainListing :: "fsys \<Rightarrow> string \<Rightarrow> bool" where
  "plainListing fs mp = list_all (\<lambda>(i, p). plainPath p) (FindEntries fs mp)"

section \<open>Sample inputs\<close>

text \<open>
  \<open>procGone\<close>: nothing can be read (the process has exited). \<open>procLive\<close>: process 200 runs
  \<open>/bin/sh\<close>. \<open>procStatGone\<close>: process 100 answers the first four reads and has exited
  when \<open>stat\<close> is read.
\<close>

definition procGone :: fsys where
  "procGone =
     \<lparr>Readlink = (\<lambda>p. Inl ENOENT), ReadFile = (\<lambda>p. ([], Some ENOENT)),
      Lstat = (\<lambda>p. Inl ENOENT), StatL = (\<lambda>p. None), FindEntries = (\<lambda>mp. []),
      FileCmd = (\<lambda>p. Inl ENOENT), Sha1Hex = (\<lambda>d. []), ModeString = (\<lambda>m. []),
      ArtifactDirReady = True, WriteFile = (\<lambda>p. None)\<rparr>"

definition procLive :: fsys where
  "procLive =
     procGone\<lparr>Readlink := (\<lambda>p. Inr ''/bin/sh''),
               ReadFile := (\<lambda>p. if p = ''/proc/200/stat'' then (''200 (sh) S 1 200 200 0'', None)
                                 else (''sh'' @ [NUL] @ ''-c'' @ [NUL], None))\<rparr>"

definition procStatGone :: fsys where
  "procStatGone =
     procGone\<lparr>Readlink := (\<lambda>p. Inr ''/bin/sh''),
               ReadFile := (\<lambda>p. if p = ''/proc/100/stat'' then ([], Some ESRCH)
                                 else (''sh'' @ [NUL], None))\<rparr>"

definition firstOfGone :: event where
  "firstOfGone = \<lparr>ID = 1, Pid = 100, File = ''/etc/hostname'', IsRead = True, IsWrite = False\<rparr>"

definition secondOfLive :: event where
  "secondOfLive = \<lparr>ID = 2, Pid = 200, File = ''/bin/sh'', IsRead = False, IsWrite = False\<rparr>"

definition readWrite :: event where
  "readWrite = \<lparr>ID = 1, Pid = 100, File = ''/tmp/out'', IsRead = True, IsWrite = True\<rparr>"

definition openExe :: "32 word \<Rightarrow> event" where
  "openExe n = \<lparr>ID = n, Pid = 200, File = ''/bin/sh'', IsRead = False, IsWrite = False\<rparr>"

text \<open>The report after \<open>n\<close> open-only events of process 200 on its own executable.\<close>

definition shInfo :: processInfo where
  "shInfo = \<lparr>pi_Pid = 200, pi_Name = ''sh'', Path = ''/bin/sh'', Cmd = ''sh -c'',
             Cwd = ''/bin/sh'', Root = ''/bin/sh'', ParentPid = 1\<rparr>"

definition shRecord :: "32 word \<Rightarrow> fileInfo" where
  "shRecord n = \<lparr>fi_EventCount = n, FirstEventID = 0, fi_Name = ''/bin/sh'',
                 ReadCount = 0, WriteCount = 0, ExeCount = n\<rparr>"

definition opensReport :: "32 word \<Rightarrow> monitorReport" where
  "opensReport n =
     \<lparr>MonitorPid = 7, MonitorParentPid = 1, EventCount = n, MainProcess = Some shInfo,
      Processes = Some (Map.empty(''200'' \<mapsto> shInfo)),
      ProcessFiles = (Map.empty(''200'' \<mapsto> Map.empty(''/bin/sh'' \<mapsto> shRecord n)))\<rparr>"

definition twoOpensReport :: monitorReport where
  "twoOpensReport = opensReport 2"

definition readWriteRecord :: fileInfo where
  "readWriteRecord = \<lparr>fi_EventCount = 1, FirstEventID = 0, fi_Name = ''/tmp/out'',
                      ReadCount = 1, WriteCount = 1, ExeCount = 0\<rparr>"

text \<open>Raw events: an open, a read with write, a close (no bit of interest), an overflow.\<close>

definition rawOpen :: "eventMetadata result" where
  "rawOpen = Inr \<lparr>Mask = 0x20, em_Pid = 200, FdLink = Inr ''/bin/sh''\<rparr>"

definition rawReadWrite :: "eventMetadata result" where
  "rawReadWrite = Inr \<lparr>Mask = 0x3, em_Pid = 200, FdLink = Inr ''/tmp/out''\<rparr>"

definition rawClose :: "eventMetadata result" where
  "rawClose = Inr \<lparr>Mask = 0x8, em_Pid = 200, FdLink = Inr ''/tmp/out''\<rparr>"

definition rawOverflow :: "eventMetadata result" where
  "rawOverflow = Inr \<lparr>Mask = 0x4000, em_Pid = 0, FdLink = Inl ENOENT\<rparr>"

text \<open>
  A file system with the file \<open>/tmp/my file\<close> (inode 12); one whose only listed entries
  are the root and the directory \<open>/tmp\<close> (inode 3, mode \<open>drwxrwxrwx\<close>); and a process
  without any kernel subscription.
\<close>

definition spaceFs :: fsys where
  "spaceFs =
     procGone\<lparr>StatL := (\<lambda>p. if p = ''/tmp/my file'' then Some 12 else None),
               FindEntries := (\<lambda>mp. [(2, ''/''), (3, ''/tmp''), (12, ''/tmp/my file'')])\<rparr>"

definition dirFs :: fsys where
  "dirFs =
     procGone\<lparr>StatL := (\<lambda>p. if p = ''/tmp'' then Some 3 else None),
               FindEntries := (\<lambda>mp. [(2, ''/''), (3, ''/tmp'')]),
               Lstat := (\<lambda>p. if p = ''/tmp'' then Inr \<lparr>st_Mode = ModeDir OR 0x1FF, st_Size = 4096\<rparr>
                               else Inl ENOENT)\<rparr>"

definition noSubscriptions :: subscriptions where
  "noSubscriptions = \<lparr>fanotifyMarks = [], procWatchers = 0\<rparr>"

text \<open>
  A file system with a file whose name holds a newline followed by digits,
  \<open>/tmp/a\<close> newline \<open>12\<close> (inode 15); the artifact directory is ready and writable.
\<close>

definition newlineFs :: fsys where
  "newlineFs =
     procGone\<lparr>FindEntries := (\<lambda>mp. [(2, ''/''), (3, ''/tmp''), (15, ''/tmp/a'' @ [newline] @ ''12'')])\<rparr>"

section \<open>Properties\<close>

subsection \<open>Sums over maps\<close>

lemma mapSum_upd:
  assumes "finite (dom m)"
  shows "mapSum g (m(k \<mapsto> v)) + (case m k of None \<Rightarrow> 0 | Some w \<Rightarrow> g w) = mapSum g m + g v"
proof (cases "m k")
  case None
  then have k: "k \<notin> dom m" by auto
  have "(\<Sum>j\<in>dom m. g (the ((m(k \<mapsto> v)) j))) = (\<Sum>j\<in>dom m. g (the (m j)))"
    using k by (intro sum.cong) auto
  then show ?thesis
    using None k assms by (simp add: mapSum_def add.commute)
next
  case (Some w)
  then have k: "k \<in> dom m" by auto
  then have d: "dom (m(k \<mapsto> v)) = dom m" by auto
  have rest: "(\<Sum>j\<in>dom m - {k}. g (the ((m(k \<mapsto> v)) j))) = (\<Sum>j\<in>dom m - {k}. g (the (m j)))"
    by (intro sum.cong) auto
  have a: "mapSum g (m(k \<mapsto> v)) = g v + (\<Sum>j\<in>dom m - {k}. g (the (m j)))"
    unfolding mapSum_def d using sum.remove [OF assms k, of "\<lambda>j. g (the ((m(k \<mapsto> v)) j))"] rest
    by simp
  have b: "mapSum g m = g w + (\<Sum>j\<in>dom m - {k}. g (the (m j)))"
    unfolding mapSum_def using sum.remove [OF assms k, of "\<lambda>j. g (the (m j))"] Some by simp
  show ?thesis using a b Some by (simp add: ac_simps)
qed

subsection \<open>The aggregation loop\<close>

lemma recordProcess_keeps:
  assumes "recordProcess fs e r = Done r1"
  shows "ProcessFiles r1 = ProcessFiles r" and "EventCount r1 = EventCount r + 1"
  using assms
  by (auto simp: recordProcess_def Let_def mapAssign_def split: if_splits exec.splits sum.splits option.splits)

lemma recordFile_keeps:
  "EventCount (recordFile e r) = EventCount r" "Processes (recordFile e r) = Processes r"
  by (simp_all add: recordFile_def Let_def)

lemma recordFile_finite:
  assumes "finiteFiles r"
  shows "finiteFiles (recordFile e r)"
  using assms
  by (auto simp: finiteFiles_def recordFile_def Let_def ran_def split: option.splits if_splits)

text \<open>The counters of the record that \<open>recordFile\<close> stores, from those it found.\<close>

lemma recordFile_sum:
  fixes g :: "fileInfo \<Rightarrow> 'a::cancel_comm_monoid_add"
  assumes "finiteFiles r"
  shows "sumOverFiles g (recordFile e r) + (case fileRecord r (pidKey e) (File e) of None \<Rightarrow> 0 | Some fi \<Rightarrow> g fi)
         = sumOverFiles g r + g (the (fileRecord (recordFile e r) (pidKey e) (File e)))"
proof -
  define pf where "pf = ProcessFiles r"
  define files where "files = (case pf (pidKey e) of None \<Rightarrow> Map.empty | Some m \<Rightarrow> m)"
  define fi where "fi = the (fileRecord (recordFile e r) (pidKey e) (File e))"
  have fin: "finite (dom pf)" "finite (dom files)"
    using assms by (auto simp: finiteFiles_def pf_def files_def ran_def split: option.splits)
  have new: "ProcessFiles (recordFile e r) = pf(pidKey e \<mapsto> files(File e \<mapsto> fi))"
    by (simp add: recordFile_def Let_def pf_def files_def fi_def fileRecord_def)
  have old: "fileRecord r (pidKey e) (File e) = files (File e)"
    by (simp add: fileRecord_def files_def pf_def split: option.splits)
  have inner: "mapSum g (files(File e \<mapsto> fi)) + (case files (File e) of None \<Rightarrow> 0 | Some w \<Rightarrow> g w)
               = mapSum g files + g fi"
    by (rule mapSum_upd [OF fin(2)])
  have outer: "mapSum (mapSum g) (pf(pidKey e \<mapsto> files(File e \<mapsto> fi)))
               + (case pf (pidKey e) of None \<Rightarrow> 0 | Some w \<Rightarrow> mapSum g w)
               = mapSum (mapSum g) pf + mapSum g (files(File e \<mapsto> fi))"
    by (rule mapSum_upd [OF fin(1)])
  have same: "(case pf (pidKey e) of None \<Rightarrow> 0 | Some w \<Rightarrow> mapSum g w) = mapSum g files"
    by (simp add: files_def mapSum_def split: option.splits)
  let ?old = "(case files (File e) of None \<Rightarrow> 0 | Some w \<Rightarrow> g w)"
  let ?A = "mapSum (mapSum g) (pf(pidKey e \<mapsto> files(File e \<mapsto> fi)))"
  have "(?A + ?old) + mapSum g files = (?A + mapSum g files) + ?old"
    by (simp add: ac_simps)
  also have "\<dots> = (mapSum (mapSum g) pf + mapSum g (files(File e \<mapsto> fi))) + ?old"
    using outer by (simp add: same)
  also have "\<dots> = mapSum (mapSum g) pf + (mapSum g (files(File e \<mapsto> fi)) + ?old)"
    by (simp add: ac_simps)
  also have "\<dots> = mapSum (mapSum g) pf + (mapSum g files + g fi)"
    using inner by simp
  also have "\<dots> = (mapSum (mapSum g) pf + g fi) + mapSum g files"
    by (simp add: ac_simps)
  finally have "?A + ?old = mapSum (mapSum g) pf + g fi"
    by simp
  then show ?thesis
    by (simp add: old fi_def sumOverFiles_def new pf_def [symmetric])
qed


lemma recordFile_stored:
  "fileRecord (recordFile e r) (pidKey e) (File e) =
     Some (case fileRecord r (pidKey e) (File e) of
             None \<Rightarrow>
               \<lparr>fi_EventCount = 1, FirstEventID = 0, fi_Name = File e,
                ReadCount = (if IsRead e then 1 else 0),
                WriteCount = (if IsWrite e then 1 else 0),
                ExeCount = (if isExe r e then 1 else 0)\<rparr>
           | Some existingFi \<Rightarrow>
               existingFi\<lparr>fi_EventCount := fi_EventCount existingFi + 1,
                          ReadCount := (if IsRead e then ReadCount existingFi + 1
                                        else ReadCount existingFi),
                          WriteCount := (if IsWrite e then WriteCount existingFi + 1
                                         else WriteCount existingFi),
                          ExeCount := (if isExe r e then ExeCount existingFi + 1
                                       else ExeCount existingFi)\<rparr>)"
  by (simp add: fileRecord_def recordFile_def Let_def split: option.splits)

lemma recordFile_others:
  assumes "pid \<noteq> pidKey e \<or> path \<noteq> File e"
  shows "fileRecord (recordFile e r) pid path = fileRecord r pid path"
  using assms by (auto simp: fileRecord_def recordFile_def Let_def split: option.splits)

lemma processEvent_split:
  assumes "processEvent fs e r = Done r2"
  obtains r1 where "recordProcess fs e r = Done r1" and "r2 = recordFile e r1"
  using assms by (auto simp: processEvent_def split: exec.splits)

lemma aggregate_invariant:
  assumes "aggregate evs r = Done r'"
    and "P n r"
    and "\<And>e. e \<in> snd ` set evs \<Longrightarrow> Q e"
    and "\<And>n fs e r r1. P n r \<Longrightarrow> Q e \<Longrightarrow> processEvent fs e r = Done r1 \<Longrightarrow> P (Suc n) r1"
  shows "P (n + length evs) r'"
  using assms(1-3)
proof (induction evs arbitrary: r n)
  case Nil
  then show ?case by simp
next
  case (Cons a evs)
  obtain fs e where a: "a = (fs, e)" by (cases a)
  from Cons.prems(1) obtain r1 where step: "processEvent fs e r = Done r1"
    and rest: "aggregate evs r1 = Done r'"
    by (auto simp: a split: exec.splits)
  have "Q e" using Cons.prems(3) [of e] by (simp add: a)
  then have "P (Suc n) r1" using assms(4) Cons.prems(2) step by blast
  then have "P (Suc n + length evs) r'"
    by (rule Cons.IH [OF rest]) (use Cons.prems(3) in auto)
  then show ?case by simp
qed

lemma sumOverFiles_member:
  assumes "finiteFiles r" and "fileRecord r pid path = Some fi"
  shows "g fi \<le> sumOverFiles (g :: fileInfo \<Rightarrow> nat) r"
proof -
  from assms(2) obtain files where f: "ProcessFiles r pid = Some files" "files path = Some fi"
    by (auto simp: fileRecord_def split: option.splits)
  have fin: "finite (dom (ProcessFiles r))" "finite (dom files)"
    using assms(1) f by (auto simp: finiteFiles_def ran_def)
  have "g fi \<le> mapSum g files"
    unfolding mapSum_def using member_le_sum [of path "dom files" "\<lambda>k. g (the (files k))"] fin f
    by auto
  also have "\<dots> \<le> sumOverFiles g r"
    unfolding sumOverFiles_def mapSum_def [of "mapSum g"]
    using member_le_sum [of pid "dom (ProcessFiles r)" "\<lambda>k. mapSum g (the (ProcessFiles r k))"] fin f
    by auto
  finally show ?thesis .
qed

lemma countsAgree_step:
  assumes "countsAgree n r" and "processEvent fs e r = Done r2"
  shows "countsAgree (Suc n) r2"
proof -
  from assms(2) obtain r1 where r1: "recordProcess fs e r = Done r1" and r2: "r2 = recordFile e r1"
    by (rule processEvent_split)
  have pf: "ProcessFiles r1 = ProcessFiles r" and ec: "EventCount r1 = EventCount r + 1"
    using recordProcess_keeps [OF r1] by simp_all
  have fin1: "finiteFiles r1" using assms(1) pf by (simp add: countsAgree_def finiteFiles_def)
  have fin2: "finiteFiles r2" using fin1 r2 by (simp add: recordFile_finite)
  have same: "sumOverFiles g r1 = sumOverFiles g r" for g :: "fileInfo \<Rightarrow> 'a::comm_monoid_add"
    by (simp add: sumOverFiles_def pf)
  have old: "fileRecord r1 pid path = fileRecord r pid path" for pid path
    by (simp add: fileRecord_def pf)
  have w: "sumOverFiles fi_EventCount r2 = sumOverFiles fi_EventCount r + 1"
    using recordFile_sum [OF fin1, of fi_EventCount e]
    by (simp add: r2 recordFile_stored same split: option.splits)
  have word: "EventCount r2 = sumOverFiles fi_EventCount r2"
    using assms(1) w by (simp add: r2 recordFile_keeps ec countsAgree_def)
  have nat: "unat (EventCount r2) = Suc n \<and> sumOverFiles (\<lambda>fi. unat (fi_EventCount fi)) r2 = Suc n"
    if n: "Suc n < 2 ^ 32"
  proof -
    from n have "n < 2 ^ 32" by simp
    with assms(1) have a: "unat (EventCount r) = n"
      and b: "sumOverFiles (\<lambda>fi. unat (fi_EventCount fi)) r = n"
      unfolding countsAgree_def by blast+
    have "unat (EventCount r + 1) = Suc n"
      using a n by (simp add: unat_word_ariths)
    moreover have "sumOverFiles (\<lambda>fi. unat (fi_EventCount fi)) r2 = Suc n"
    proof (cases "fileRecord r (pidKey e) (File e)")
      case None
      then show ?thesis
        using recordFile_sum [OF fin1, of "\<lambda>fi. unat (fi_EventCount fi)" e] b
        by (simp add: r2 recordFile_stored same old)
    next
      case (Some fi)
      have "unat (fi_EventCount fi) \<le> n"
        using sumOverFiles_member [of r "pidKey e" "File e" fi "\<lambda>fi. unat (fi_EventCount fi)"]
          assms(1) Some b by (simp add: countsAgree_def)
      then have "unat (fi_EventCount fi + 1) = unat (fi_EventCount fi) + 1"
        using n by (simp add: unat_word_ariths)
      then show ?thesis
        using recordFile_sum [OF fin1, of "\<lambda>fi. unat (fi_EventCount fi)" e] b Some
        by (simp add: r2 recordFile_stored same old)
    qed
    ultimately show ?thesis by (simp add: r2 recordFile_keeps ec)
  qed
  show ?thesis
    using fin2 word nat by (simp add: countsAgree_def)
qed

lemma countsAgree_new: "countsAgree 0 (newReport mpid mppid)"
  by (simp add: countsAgree_def newReport_def finiteFiles_def sumOverFiles_def mapSum_def)

subsection \<open>The event counter and the file records\<close>

text \<open>
  Claim C1. In every report that the aggregator delivers, \<open>EventCount\<close> is the sum of the
  \<open>EventCount\<close> of every file record of every process: as sums of \<open>uint32\<close> for every
  run, and as plain numbers for every run of fewer than \<open>2 ^ 32\<close> events.
\<close>

theorem event_count_is_sum_of_file_event_counts:
  assumes "listenEvents mpid mppid evs = Done report"
  shows "EventCount report = sumOverFiles fi_EventCount report \<and>
         (length evs < 2 ^ 32 \<longrightarrow>
            unat (EventCount report) = sumOverFiles (\<lambda>fi. unat (fi_EventCount fi)) report)"
proof -
  have "countsAgree (0 + length evs) report"
    using assms unfolding listenEvents_def
    by (rule aggregate_invariant [where Q = "\<lambda>e. True"]) (simp_all add: countsAgree_new countsAgree_step)
  then have c: "countsAgree (length evs) report" by simp
  have "EventCount report = sumOverFiles fi_EventCount report"
    using c unfolding countsAgree_def by blast
  moreover have "unat (EventCount report) = sumOverFiles (\<lambda>fi. unat (fi_EventCount fi)) report"
    if "length evs < 2 ^ 32"
    using c that unfolding countsAgree_def by metis
  ultimately show ?thesis by blast
qed

lemmas run_defs =
  listenEvents_def newReport_def processEvent_def recordProcess_def getProcessInfo_def
  procFilePath_def Itoa_def decimal.simps Sscanf_d_s_s_d_def scanInt_def scanSpaces_def
  scanFormatSpace_def scanString_def Atoi_def isSpace_def isDigit_def digitsValue_def
  newline_def sliceStr_def TrimRight_def Replace_def NUL_def mapLookup_def mapAssign_def
  pidKey_def recordFile_def isExe_def procGone_def procLive_def procStatGone_def

theorem event_count_is_sum_of_file_event_counts_witness:
  "listenEvents 7 1 [(procLive, openExe 1), (procLive, openExe 2)] = Done twoOpensReport \<and>
   EventCount twoOpensReport = sumOverFiles fi_EventCount twoOpensReport \<and>
   length [(procLive, openExe 1), (procLive, openExe 2)] < (2 :: nat) ^ 32 \<and>
   unat (EventCount twoOpensReport) = sumOverFiles (\<lambda>fi. unat (fi_EventCount fi)) twoOpensReport"
proof -
  have run: "listenEvents 7 1 [(procLive, openExe 1), (procLive, openExe 2)] = Done twoOpensReport"
    by (simp add: run_defs openExe_def twoOpensReport_def opensReport_def shRecord_def shInfo_def)
  have len: "length [(procLive, openExe 1), (procLive, openExe 2)] < (2 :: nat) ^ 32"
    by simp
  from event_count_is_sum_of_file_event_counts [OF run] run len show ?thesis
    by blast
qed

subsection \<open>Introspection of a process that exits\<close>

text \<open>
  Claim C2. The links \<open>exe\<close>, \<open>cwd\<close>, \<open>root\<close> and the file \<open>cmdline\<close> of process 100 are
  read; the process has exited when \<open>stat\<close> is read. \<open>getProcessInfo\<close> does not return
  an error: the slice \<open>procName[1 : len(procName)-1]\<close> of the empty name panics.
\<close>

theorem getProcessInfo_panics_when_stat_is_unreadable:
  "getProcessInfo procStatGone 100 = Panic SliceBoundsOutOfRange"
  by (simp add: run_defs)

subsection \<open>A later process after a first event without a process record\<close>

text \<open>
  Claim C3. The first event comes from a process that cannot be read any more, so the
  \<open>Processes\<close> map is never allocated; the second event comes from process 200, which
  can be read. The loop does not insert its record: the assignment to the nil map panics.
\<close>

theorem nil_processes_map_assignment_panics:
  "listenEvents 7 1 [(procGone, firstOfGone), (procLive, secondOfLive)] = Panic AssignmentToNilMap"
  by (simp add: run_defs firstOfGone_def secondOfLive_def)

subsection \<open>Reads and writes against the event count\<close>

lemma unat_inc32: "unat (x :: 32 word) < n \<Longrightarrow> n < 2 ^ 32 \<Longrightarrow> unat (x + 1) = Suc (unat x)"
  by (simp add: unat_word_ariths)

lemma stored_withinEvents:
  assumes "Suc n < 2 ^ 32"
    and "\<And>fi. fileRecord r (pidKey e) (File e) = Some fi \<Longrightarrow> withinEvents n fi"
    and "fileRecord (recordFile e r) (pidKey e) (File e) = Some fi1"
  shows "withinEvents (Suc n) fi1"
proof (cases "fileRecord r (pidKey e) (File e)")
  case None
  then show ?thesis
    using assms(3) by (auto simp: recordFile_stored withinEvents_def)
next
  case (Some ex)
  then have w: "withinEvents n ex" by (rule assms(2))
  have ec: "unat (fi_EventCount ex + 1) = Suc (unat (fi_EventCount ex))"
    using w assms(1) by (intro unat_inc32 [of _ "Suc n"]) (auto simp: withinEvents_def)
  have rc: "unat (ReadCount ex + 1) = Suc (unat (ReadCount ex))"
    using w assms(1) by (intro unat_inc32 [of _ "Suc n"]) (auto simp: withinEvents_def)
  have wc: "unat (WriteCount ex + 1) = Suc (unat (WriteCount ex))"
    using w assms(1) by (intro unat_inc32 [of _ "Suc n"]) (auto simp: withinEvents_def)
  show ?thesis
    using assms(3) Some w ec rc wc by (auto simp: recordFile_stored withinEvents_def)
qed

lemma stored_readsWrites:
  assumes "Suc n < 2 ^ 32" and "\<not> readAndWrite e"
    and "\<And>fi. fileRecord r (pidKey e) (File e) = Some fi \<Longrightarrow> withinEvents n fi \<and> readsWritesWithinEvents fi"
    and "fileRecord (recordFile e r) (pidKey e) (File e) = Some fi1"
  shows "readsWritesWithinEvents fi1"
proof (cases "fileRecord r (pidKey e) (File e)")
  case None
  then show ?thesis
    using assms(2,4) by (auto simp: recordFile_stored readsWritesWithinEvents_def readAndWrite_def)
next
  case (Some ex)
  then have w: "withinEvents n ex" "readsWritesWithinEvents ex" using assms(3) by blast+
  have ec: "unat (fi_EventCount ex + 1) = Suc (unat (fi_EventCount ex))"
    using w assms(1) by (intro unat_inc32 [of _ "Suc n"]) (auto simp: withinEvents_def)
  have rc: "unat (ReadCount ex + 1) = Suc (unat (ReadCount ex))"
    using w assms(1) by (intro unat_inc32 [of _ "Suc n"]) (auto simp: withinEvents_def)
  have wc: "unat (WriteCount ex + 1) = Suc (unat (WriteCount ex))"
    using w assms(1) by (intro unat_inc32 [of _ "Suc n"]) (auto simp: withinEvents_def)
  show ?thesis
    using assms(2,4) Some w ec rc wc
    by (auto simp: recordFile_stored readsWritesWithinEvents_def readAndWrite_def)
qed

lemma withinEvents_mono: "withinEvents n fi \<Longrightarrow> withinEvents (Suc n) fi"
  by (simp add: withinEvents_def)

lemma withinEvents_step:
  assumes "n < 2 ^ 32 \<longrightarrow> allRecords (withinEvents n) r" and "processEvent fs e r = Done r2"
  shows "Suc n < 2 ^ 32 \<longrightarrow> allRecords (withinEvents (Suc n)) r2"
proof
  assume n: "Suc n < (2::nat) ^ 32"
  from assms(2) obtain r1 where r1: "recordProcess fs e r = Done r1" and r2: "r2 = recordFile e r1"
    by (rule processEvent_split)
  have old: "fileRecord r1 pid path = fileRecord r pid path" for pid path
    using recordProcess_keeps(1) [OF r1] by (simp add: fileRecord_def)
  have all: "allRecords (withinEvents n) r" using assms(1) n by simp
  show "allRecords (withinEvents (Suc n)) r2"
    unfolding allRecords_def
  proof (intro allI impI)
    fix pid path fi
    assume f: "fileRecord r2 pid path = Some fi"
    show "withinEvents (Suc n) fi"
    proof (cases "pid = pidKey e \<and> path = File e")
      case True
      show ?thesis
      proof (rule stored_withinEvents [OF n, of r1 e])
        show "withinEvents n fi'" if "fileRecord r1 (pidKey e) (File e) = Some fi'" for fi'
          using all that unfolding allRecords_def old by blast
        show "fileRecord (recordFile e r1) (pidKey e) (File e) = Some fi"
          using f True r2 by simp
      qed
    next
      case False
      then have "fileRecord r2 pid path = fileRecord r pid path"
        using recordFile_others [of pid e path r1] old r2 by auto
      then show ?thesis
        using all f withinEvents_mono unfolding allRecords_def by auto
    qed
  qed
qed

lemma readsWrites_step:
  assumes "n < 2 ^ 32 \<longrightarrow> allRecords (\<lambda>fi. withinEvents n fi \<and> readsWritesWithinEvents fi) r"
    and "\<not> readAndWrite e" and "processEvent fs e r = Done r2"
  shows "Suc n < 2 ^ 32 \<longrightarrow> allRecords (\<lambda>fi. withinEvents (Suc n) fi \<and> readsWritesWithinEvents fi) r2"
proof
  assume n: "Suc n < (2::nat) ^ 32"
  from assms(3) obtain r1 where r1: "recordProcess fs e r = Done r1" and r2: "r2 = recordFile e r1"
    by (rule processEvent_split)
  have old: "fileRecord r1 pid path = fileRecord r pid path" for pid path
    using recordProcess_keeps(1) [OF r1] by (simp add: fileRecord_def)
  have all: "allRecords (\<lambda>fi. withinEvents n fi \<and> readsWritesWithinEvents fi) r"
    using assms(1) n by simp
  show "allRecords (\<lambda>fi. withinEvents (Suc n) fi \<and> readsWritesWithinEvents fi) r2"
    unfolding allRecords_def
  proof (intro allI impI)
    fix pid path fi
    assume f: "fileRecord r2 pid path = Some fi"
    show "withinEvents (Suc n) fi \<and> readsWritesWithinEvents fi"
    proof (cases "pid = pidKey e \<and> path = File e")
      case True
      have prev: "withinEvents n fi' \<and> readsWritesWithinEvents fi'"
        if "fileRecord r1 (pidKey e) (File e) = Some fi'" for fi'
        using all that unfolding allRecords_def old by blast
      have stored: "fileRecord (recordFile e r1) (pidKey e) (File e) = Some fi"
        using f True r2 by simp
      have "withinEvents (Suc n) fi"
        using stored_withinEvents [OF n, of r1 e fi] prev stored by blast
      moreover have "readsWritesWithinEvents fi"
        using stored_readsWrites [OF n assms(2), of r1 fi] prev stored by blast
      ultimately show ?thesis ..
    next
      case False
      then have "fileRecord r2 pid path = fileRecord r pid path"
        using recordFile_others [of pid e path r1] old r2 by auto
      then show ?thesis
        using all f withinEvents_mono unfolding allRecords_def by auto
    qed
  qed
qed

lemma allRecords_new: "allRecords ok (newReport mpid mppid)"
  by (simp add: allRecords_def fileRecord_def newReport_def)

text \<open>
  Claim C4, as amended. In the report of a run of fewer than \<open>2 ^ 32\<close> events, every file
  record has \<open>reads \<le> event_count\<close> and \<open>writes \<le> event_count\<close>; and
  \<open>reads + writes \<le> event_count\<close> when no event of the run carried both flags.
\<close>

theorem reads_and_writes_each_within_event_count:
  assumes "listenEvents mpid mppid evs = Done report"
    and "length evs < 2 ^ 32"
    and "fileRecord report pid path = Some fi"
  shows "unat (ReadCount fi) \<le> unat (fi_EventCount fi) \<and>
         unat (WriteCount fi) \<le> unat (fi_EventCount fi) \<and>
         ((\<forall>e \<in> snd ` set evs. \<not> readAndWrite e) \<longrightarrow>
            unat (ReadCount fi) + unat (WriteCount fi) \<le> unat (fi_EventCount fi))"
proof -
  have "0 + length evs < 2 ^ 32 \<longrightarrow> allRecords (withinEvents (0 + length evs)) report"
    using assms(1) unfolding listenEvents_def
    by (rule aggregate_invariant [where Q = "\<lambda>e. True"
          and P = "\<lambda>n r. n < 2 ^ 32 \<longrightarrow> allRecords (withinEvents n) r"])
       (use withinEvents_step in \<open>auto simp: allRecords_new\<close>)
  then have a: "withinEvents (length evs) fi"
    using assms(2,3) by (auto simp: allRecords_def)
  have b: "readsWritesWithinEvents fi" if q: "\<forall>e \<in> snd ` set evs. \<not> readAndWrite e"
  proof -
    have "0 + length evs < 2 ^ 32 \<longrightarrow>
          allRecords (\<lambda>fi. withinEvents (0 + length evs) fi \<and> readsWritesWithinEvents fi) report"
      using assms(1) unfolding listenEvents_def
      by (rule aggregate_invariant [where Q = "\<lambda>e. \<not> readAndWrite e"
            and P = "\<lambda>n r. n < 2 ^ 32 \<longrightarrow> allRecords (\<lambda>fi. withinEvents n fi \<and> readsWritesWithinEvents fi) r"])
         (use q readsWrites_step in \<open>auto simp: allRecords_new\<close>)
    then show ?thesis using assms(2,3) by (auto simp: allRecords_def)
  qed
  show ?thesis
    using a b by (auto simp: withinEvents_def readsWritesWithinEvents_def)
qed

theorem reads_and_writes_each_within_event_count_witness:
  "listenEvents 7 1 [(procLive, openExe 1), (procLive, openExe 2)] = Done twoOpensReport \<and>
   length [(procLive, openExe 1), (procLive, openExe 2)] < (2 :: nat) ^ 32 \<and>
   fileRecord twoOpensReport ''200'' ''/bin/sh'' = Some (shRecord 2) \<and>
   \<not> readAndWrite (openExe 1) \<and> \<not> readAndWrite (openExe 2) \<and>
   unat (ReadCount (shRecord 2)) \<le> unat (fi_EventCount (shRecord 2)) \<and>
   unat (WriteCount (shRecord 2)) \<le> unat (fi_EventCount (shRecord 2)) \<and>
   unat (ReadCount (shRecord 2)) + unat (WriteCount (shRecord 2)) \<le> unat (fi_EventCount (shRecord 2))"
proof -
  have run: "listenEvents 7 1 [(procLive, openExe 1), (procLive, openExe 2)] = Done twoOpensReport"
    by (simp add: run_defs openExe_def twoOpensReport_def opensReport_def shRecord_def shInfo_def)
  have len: "length [(procLive, openExe 1), (procLive, openExe 2)] < (2 :: nat) ^ 32"
    by simp
  have rec: "fileRecord twoOpensReport ''200'' ''/bin/sh'' = Some (shRecord 2)"
    by (simp add: fileRecord_def twoOpensReport_def opensReport_def)
  have flags: "\<not> readAndWrite (openExe 1)" "\<not> readAndWrite (openExe 2)"
    by (simp_all add: readAndWrite_def openExe_def)
  from reads_and_writes_each_within_event_count [OF run len rec] run len rec flags
  show ?thesis by simp
qed

text \<open>
  The claim as stated fails on a single event that carries both flags: the record it
  creates has one event, one read and one write.
\<close>

theorem read_write_event_counterexample:
  "deliveredRecord (listenEvents 7 1 [(procGone, readWrite)]) ''100'' ''/tmp/out'' = Some readWriteRecord \<and>
   \<not> unat (ReadCount readWriteRecord) + unat (WriteCount readWriteRecord)
       \<le> unat (fi_EventCount readWriteRecord)"
  by (simp add: run_defs deliveredRecord_def fileRecord_def readWrite_def readWriteRecord_def)

subsection \<open>Open-only events\<close>

text \<open>
  Claim C5, as amended. An event with neither the read nor the write flag adds 1 to the
  \<open>EventCount\<close> of its file record (creating it if need be) and leaves \<open>ReadCount\<close> and
  \<open>WriteCount\<close> as they were; \<open>ExeCount\<close> grows by 1 exactly when the process has a
  record whose \<open>Path\<close> is the path of the event.
\<close>

theorem open_only_event_updates_counters:
  assumes "processEvent fs e report = Done report1" and "\<not> IsRead e" and "\<not> IsWrite e"
  shows "fileRecord report1 (pidKey e) (File e) \<noteq> None \<and>
         counterOf fi_EventCount (fileRecord report1 (pidKey e) (File e))
           = counterOf fi_EventCount (fileRecord report (pidKey e) (File e)) + 1 \<and>
         counterOf ReadCount (fileRecord report1 (pidKey e) (File e))
           = counterOf ReadCount (fileRecord report (pidKey e) (File e)) \<and>
         counterOf WriteCount (fileRecord report1 (pidKey e) (File e))
           = counterOf WriteCount (fileRecord report (pidKey e) (File e)) \<and>
         counterOf ExeCount (fileRecord report1 (pidKey e) (File e))
           = counterOf ExeCount (fileRecord report (pidKey e) (File e))
             + (if isExe report1 e then 1 else 0)"
proof -
  from assms(1) obtain r1 where r1: "recordProcess fs e report = Done r1"
    and r2: "report1 = recordFile e r1"
    by (rule processEvent_split)
  have old: "fileRecord r1 (pidKey e) (File e) = fileRecord report (pidKey e) (File e)"
    using recordProcess_keeps(1) [OF r1] by (simp add: fileRecord_def)
  have exe: "isExe report1 e = isExe r1 e"
    by (simp add: isExe_def r2 recordFile_keeps)
  show ?thesis
    using assms(2,3) unfolding r2 recordFile_stored old exe [unfolded r2]
    by (cases "fileRecord report (pidKey e) (File e)") (simp_all add: counterOf_def)
qed

theorem open_only_event_updates_counters_witness:
  "processEvent procLive (openExe 2) (opensReport 1) = Done (opensReport 2) \<and>
   \<not> IsRead (openExe 2) \<and> \<not> IsWrite (openExe 2) \<and>
   fileRecord (opensReport 2) (pidKey (openExe 2)) (File (openExe 2)) \<noteq> None \<and>
   counterOf fi_EventCount (fileRecord (opensReport 2) (pidKey (openExe 2)) (File (openExe 2)))
     = counterOf fi_EventCount (fileRecord (opensReport 1) (pidKey (openExe 2)) (File (openExe 2))) + 1 \<and>
   counterOf ReadCount (fileRecord (opensReport 2) (pidKey (openExe 2)) (File (openExe 2)))
     = counterOf ReadCount (fileRecord (opensReport 1) (pidKey (openExe 2)) (File (openExe 2))) \<and>
   counterOf WriteCount (fileRecord (opensReport 2) (pidKey (openExe 2)) (File (openExe 2)))
     = counterOf WriteCount (fileRecord (opensReport 1) (pidKey (openExe 2)) (File (openExe 2)))"
proof -
  have step: "processEvent procLive (openExe 2) (opensReport 1) = Done (opensReport 2)"
    by (simp add: run_defs openExe_def opensReport_def shRecord_def shInfo_def)
  have flags: "\<not> IsRead (openExe 2)" "\<not> IsWrite (openExe 2)"
    by (simp_all add: openExe_def)
  from open_only_event_updates_counters [OF step flags] step flags show ?thesis
    by simp
qed

text \<open>
  The claim as stated fails when a process opens its own executable: the second
  open-only event of process 200 on \<open>/bin/sh\<close> takes \<open>ExeCount\<close> from 1 to 2.
\<close>

theorem open_of_own_executable_counterexample:
  "listenEvents 7 1 [(procLive, openExe 1)] = Done (opensReport 1) \<and>
   \<not> IsRead (openExe 2) \<and> \<not> IsWrite (openExe 2) \<and>
   processEvent procLive (openExe 2) (opensReport 1) = Done (opensReport 2) \<and>
   counterOf ExeCount (fileRecord (opensReport 1) (pidKey (openExe 2)) (File (openExe 2))) = 1 \<and>
   counterOf ExeCount (fileRecord (opensReport 2) (pidKey (openExe 2)) (File (openExe 2))) = 2"
  by (simp add: run_defs openExe_def opensReport_def shRecord_def shInfo_def counterOf_def fileRecord_def)

subsection \<open>Notification source\<close>

lemma notifyStep_cases:
  "notifyStep got eventID =
     (if \<not> decodable got then Fatal
      else if notifiable got then Done (eventID + 1, Some (eventOf (eventID + 1) got))
      else Done (eventID, None))"
  by (auto simp: notifyStep_def notifiable_def decodable_def payload_def eventOf_def Let_def
      split: sum.splits)

lemma notifyLoop_sent:
  "fst (notifyLoop raws eventID) =
     map (\<lambda>i. eventOf (eventID + of_nat (Suc i)) (filter notifiable (takeWhile decodable raws) ! i))
       [0..<length (filter notifiable (takeWhile decodable raws))]"
proof (induction raws arbitrary: eventID)
  case Nil
  then show ?case by simp
next
  case (Cons got rest)
  let ?kept = "filter notifiable (takeWhile decodable rest)"
  show ?case
  proof (cases "decodable got")
    case False
    then show ?thesis by (simp add: notifyStep_cases)
  next
    case True
    show ?thesis
    proof (cases "notifiable got")
      case False
      then show ?thesis
        using True Cons.IH [of eventID] by (simp add: notifyStep_cases split: prod.splits)
    next
      case n: True
      have "fst (notifyLoop (got # rest) eventID)
            = eventOf (eventID + 1) got # fst (notifyLoop rest (eventID + 1))"
        using True n by (simp add: notifyStep_cases split: prod.splits)
      also have "\<dots> = eventOf (eventID + 1) got #
            map (\<lambda>i. eventOf (eventID + 1 + of_nat (Suc i)) (?kept ! i)) [0..<length ?kept]"
        by (simp only: Cons.IH)
      also have "\<dots> = map (\<lambda>i. eventOf (eventID + of_nat (Suc i)) ((got # ?kept) ! i))
                         [0..<Suc (length ?kept)]"
        by (simp add: map_upt_Suc add.assoc del: upt_Suc)
      finally show ?thesis
        using True n by simp
    qed
  qed
qed

lemma ID_eventOf: "ID (eventOf n got) = n"
  by (simp add: eventOf_def split: prod.splits)

text \<open>
  Claim C6. The reader sends exactly the raw events that have the open, access or modify
  bit and not the overflow bit, up to the first raw event it cannot decode (which ends the
  process), each with its flags; the one at position \<open>i\<close> (from 0) carries the id \<open>i + 1\<close>
  as a \<open>uint32\<close>, so the ids start at 1 and grow by 1, and they are the numbers
  \<open>1, 2, \<dots>\<close> themselves while fewer than \<open>2 ^ 32\<close> events have been sent. Raw events
  without any of the three bits, and overflow events, get no id.
\<close>

theorem ids_count_the_notifiable_events:
  "fst (notificationSource raws) =
     map (\<lambda>i. eventOf (of_nat (Suc i)) (filter notifiable (takeWhile decodable raws) ! i))
       [0..<length (filter notifiable (takeWhile decodable raws))] \<and>
   (length (filter notifiable (takeWhile decodable raws)) < 2 ^ 32 \<longrightarrow>
      map (\<lambda>e. unat (ID e)) (fst (notificationSource raws))
        = [1..<Suc (length (filter notifiable (takeWhile decodable raws)))])"
proof -
  let ?kept = "filter notifiable (takeWhile decodable raws)"
  have sent: "fst (notificationSource raws) =
     map (\<lambda>i. eventOf (of_nat (Suc i)) (?kept ! i)) [0..<length ?kept]"
    using notifyLoop_sent [of raws 0] by (simp add: notificationSource_def)
  have "map (\<lambda>e. unat (ID e)) (fst (notificationSource raws)) = [1..<Suc (length ?kept)]"
    if small: "length ?kept < 2 ^ 32"
  proof -
    have "map (\<lambda>e. unat (ID e)) (fst (notificationSource raws))
          = map (\<lambda>i. unat (of_nat (Suc i) :: 32 word)) [0..<length ?kept]"
      by (simp add: sent ID_eventOf comp_def)
    also have "\<dots> = map Suc [0..<length ?kept]"
    proof (rule map_cong [OF refl])
      fix i assume "i \<in> set [0..<length ?kept]"
      then have "Suc i < 2 ^ 32" using small by simp
      then show "unat (of_nat (Suc i) :: 32 word) = Suc i"
        by (simp add: unat_of_nat del: of_nat_Suc)
    qed
    also have "\<dots> = [1..<Suc (length ?kept)]"
      by (simp add: map_Suc_upt del: upt_Suc)
    finally show ?thesis .
  qed
  with sent show ?thesis by blast
qed

theorem ids_count_the_notifiable_events_witness:
  "fst (notificationSource [rawOpen, rawClose, rawOverflow, rawReadWrite]) =
     [\<lparr>ID = 1, Pid = 200, File = ''/bin/sh'', IsRead = False, IsWrite = False\<rparr>,
      \<lparr>ID = 2, Pid = 200, File = ''/tmp/out'', IsRead = True, IsWrite = True\<rparr>] \<and>
   length (filter notifiable (takeWhile decodable [rawOpen, rawClose, rawOverflow, rawReadWrite]))
     < (2 :: nat) ^ 32 \<and>
   map (\<lambda>e. unat (ID e)) (fst (notificationSource [rawOpen, rawClose, rawOverflow, rawReadWrite]))
     = [1, 2]"
proof -
  have bits: "notifiable rawOpen" "\<not> notifiable rawClose" "\<not> notifiable rawOverflow"
    "notifiable rawReadWrite" "decodable rawOpen" "decodable rawClose" "decodable rawOverflow"
    "decodable rawReadWrite"
    by (simp_all add: notifiable_def decodable_def hasBits_def rawOpen_def rawClose_def
        rawOverflow_def rawReadWrite_def FAN_OPEN_def FAN_ACCESS_def FAN_MODIFY_def
        FAN_Q_OVERFLOW_def)
  have kept: "filter notifiable (takeWhile decodable [rawOpen, rawClose, rawOverflow, rawReadWrite])
              = [rawOpen, rawReadWrite]"
    by (simp add: bits)
  have evs: "eventOf 1 rawOpen = \<lparr>ID = 1, Pid = 200, File = ''/bin/sh'', IsRead = False, IsWrite = False\<rparr>"
    "eventOf 2 rawReadWrite = \<lparr>ID = 2, Pid = 200, File = ''/tmp/out'', IsRead = True, IsWrite = True\<rparr>"
    by (simp_all add: eventOf_def payload_def hasBits_def rawOpen_def rawReadWrite_def
        FAN_ACCESS_def FAN_MODIFY_def)
  have upt: "[0..<2] = [0, Suc 0]" "[1..<3] = [1, 2]"
    by (simp_all add: upt_rec)
  from ids_count_the_notifiable_events [of "[rawOpen, rawClose, rawOverflow, rawReadWrite]"]
  show ?thesis
    unfolding kept by (simp add: evs upt)
qed

subsection \<open>Symlink resolver\<close>

lemmas resolver_defs =
  findSymlinks_def filesToInodes_def statOutput_def findOutput_def TrimSpace_def isSpace_def
  Atoi_def isDigit_def digitsValue_def Itoa_def decimal.simps newline_def List.map_filter_def

text \<open>
  Claim C7. The observed path \<open>/tmp/my file\<close> can be stat'ed (inode 12) and \<open>find\<close> lists it
  under the mount point with that inode. The resolver's result does not hold the path:
  the line of \<open>find\<close> is split at every space and only the field after the inode is kept,
  so the key is \<open>/tmp/my\<close>.
\<close>

theorem path_with_space_is_cut_at_the_space:
  "StatL spaceFs ''/tmp/my file'' = Some 12 \<and>
   (12, ''/tmp/my file'') \<in> set (FindEntries spaceFs ''/'') \<and>
   \<not> resolved (findSymlinks spaceFs [''/tmp/my file''] ''/'') ''/tmp/my file'' \<and>
   resolved (findSymlinks spaceFs [''/tmp/my file''] ''/'') ''/tmp/my''"
  by (simp add: resolver_defs spaceFs_def procGone_def resolved_def)

subsection \<open>Fork observer\<close>

lemma forkLoop_children:
  "forkLoop evs forks = Done forks' \<Longrightarrow> forks' p = forks p @ forkChildren evs p"
  by (induction evs forks rule: forkLoop.induct) (auto simp: forkChildren_def)

text \<open>
  Claim C8, as amended. \<open>monitor\<close> marks the mount point \<open>/\<close> for fanotify and opens no
  process-event watcher: only \<open>monitorProcess\<close> would, and \<open>monitor\<close> does not call it.
  The loop of \<open>monitorProcess\<close>, were it run, appends the child of each fork to the list
  of its parent.
\<close>

theorem monitor_starts_no_fork_observer:
  "procWatchers (monitor_start subs) = procWatchers subs \<and>
   fanotifyMarks (monitor_start subs) = ''/'' # fanotifyMarks subs \<and>
   procWatchers (monitorProcess_start subs) = Suc (procWatchers subs) \<and>
   (forkLoop evs forks = Done forks' \<longrightarrow> (\<forall>p. forks' p = forks p @ forkChildren evs p))"
  using forkLoop_children [of evs forks forks']
  by (simp add: monitor_start_def listenEvents_start_def monitorProcess_start_def)

theorem monitor_starts_no_fork_observer_witness:
  "forkLoop [Fork 200 201, Exec 201, Fork 200 202, Exit 201] (\<lambda>p. []) = Done ((\<lambda>p. [])(200 := [201, 202])) \<and>
   ((\<lambda>p. [])(200 := [201, 202])) 200 = [] @ forkChildren [Fork 200 201, Exec 201, Fork 200 202, Exit 201] 200 \<and>
   procWatchers (monitor_start noSubscriptions) = procWatchers noSubscriptions"
proof -
  have run: "forkLoop [Fork 200 201, Exec 201, Fork 200 202, Exit 201] (\<lambda>p. [])
             = Done ((\<lambda>p. [])(200 := [201, 202]))"
    by simp
  from monitor_starts_no_fork_observer
    [of noSubscriptions "[Fork 200 201, Exec 201, Fork 200 202, Exit 201]" "\<lambda>p. []"
       "(\<lambda>p. [])(200 := [201, 202])"] run
  show ?thesis by (simp add: forkChildren_def)
qed

text \<open>
  The claim as stated fails: after \<open>monitor\<close> has started from no subscriptions there is
  no process-event watcher, where a start of \<open>monitorProcess\<close> would leave one.
\<close>

theorem no_process_watcher_after_monitor_start:
  "procWatchers (monitor_start noSubscriptions) = 0 \<and>
   procWatchers (monitorProcess_start noSubscriptions) = 1"
  by (simp add: monitor_start_def listenEvents_start_def monitorProcess_start_def noSubscriptions_def)

subsection \<open>Artifact store: directories and other types\<close>

lemma prepareArtifact_nameList:
  "nameList (prepareArtifact fs n p) = nameList p @ (if isl (Lstat fs n) then [] else [n])"
  by (auto simp: prepareArtifact_def Let_def split: sum.splits)

lemma prepareArtifacts_nameList:
  "nameList (prepareArtifacts fs order p) = nameList p @ filter (\<lambda>n. \<not> isl (Lstat fs n)) order"
  unfolding prepareArtifacts_def
  by (induction order arbitrary: p) (simp_all add: prepareArtifact_nameList)

lemma prepareArtifact_rawNames_other:
  assumes "Lstat fs path = Inr info" and "\<not> IsRegular (st_Mode info)"
    and "st_Mode info AND ModeSymlink = 0"
  shows "rawNames (prepareArtifact fs n p) path = rawNames p path"
  using assms by (cases "n = path") (auto simp: prepareArtifact_def Let_def split: sum.splits)

lemma prepareArtifacts_rawNames_other:
  assumes "Lstat fs path = Inr info" and "\<not> IsRegular (st_Mode info)"
    and "st_Mode info AND ModeSymlink = 0"
  shows "rawNames (prepareArtifacts fs order p) path = rawNames p path"
  unfolding prepareArtifacts_def
  by (induction order arbitrary: p) (simp_all add: prepareArtifact_rawNames_other [OF assms])

lemma nil_values_fold:
  assumes "ran m \<subseteq> {None}"
  shows "ran (foldl (\<lambda>result f. result(f \<mapsto> None)) m fs) \<subseteq> {None}"
  using assms
proof (induction fs arbitrary: m)
  case Nil
  then show ?case by simp
next
  case (Cons a fs)
  have "ran (m(a \<mapsto> None)) \<subseteq> {None}"
    using Cons.prems by (auto simp: ran_def)
  from Cons.IH [OF this] show ?case by simp
qed

lemma nil_values_folds:
  assumes "ran m \<subseteq> {None}"
  shows "ran (foldl (\<lambda>result i. foldl (\<lambda>result f. result(f \<mapsto> None)) result (g i)) m is)
           \<subseteq> {None}"
  using assms
proof (induction "is" arbitrary: m)
  case Nil
  then show ?case by simp
next
  case (Cons i "is")
  from Cons.IH [OF nil_values_fold [OF Cons.prems, of "g i"]] show ?case
    by (simp only: foldl_Cons)
qed

lemma findSymlinks_nil_values:
  assumes "findSymlinks fs files mp = Done names" and "path \<in> dom names"
  shows "names path = Some None"
proof -
  from assms(1) obtain idx where
    "names = foldl (\<lambda>result i. foldl (\<lambda>result f. result(f \<mapsto> None)) result (idx i))
               Map.empty (filesToInodes fs files)"
    by (auto simp: findSymlinks_def Let_def split: exec.splits)
  then have "ran names \<subseteq> {None}"
    using nil_values_folds [of Map.empty idx "filesToInodes fs files"] by simp
  then show ?thesis using assms(2) by (auto simp: ran_def)
qed

text \<open>
  Claim C10. A resolved path whose \<open>lstat\<close> succeeds with a mode that is neither regular
  nor a symlink is appended to \<open>nameList\<close>, keeps its nil entry in \<open>rawNames\<close>, and
  therefore the \<open>Files\<close> of the written report hold \<open>None\<close> (JSON \<open>null\<close>) at the position
  of the path in the sorted name list.
\<close>

theorem directory_is_listed_with_a_null_entry:
  assumes "findSymlinks fs fileList mp = Done names"
    and "rangeOrder names order"
    and "path \<in> dom names"
    and "Lstat fs path = Inr info"
    and "\<not> IsRegular (st_Mode info)"
    and "st_Mode info AND ModeSymlink = 0"
    and "saveReport fs (prepareArtifacts fs order (newArtifactStore loc report names)) = Done written"
  shows "path \<in> set (nameList (prepareArtifacts fs order (newArtifactStore loc report names))) \<and>
         rawNames (prepareArtifacts fs order (newArtifactStore loc report names)) path = Some None \<and>
         path \<in> set (sort (nameList (prepareArtifacts fs order (newArtifactStore loc report names)))) \<and>
         length (Files written) = length (sort (nameList (prepareArtifacts fs order (newArtifactStore loc report names)))) \<and>
         (\<forall>i < length (Files written).
            sort (nameList (prepareArtifacts fs order (newArtifactStore loc report names))) ! i = path
            \<longrightarrow> Files written ! i = None)"
proof -
  let ?store = "prepareArtifacts fs order (newArtifactStore loc report names)"
  have "path \<in> set order" using assms(2,3) by (simp add: rangeOrder_def)
  then have listed: "path \<in> set (nameList ?store)"
    using assms(4) by (simp add: prepareArtifacts_nameList newArtifactStore_def)
  have nil: "rawNames ?store path = Some None"
    using prepareArtifacts_rawNames_other [OF assms(4-6)] findSymlinks_nil_values [OF assms(1,3)]
    by (simp add: newArtifactStore_def)
  have files: "Files written = map (\<lambda>fname. case rawNames ?store fname of None \<Rightarrow> None | Some props \<Rightarrow> props)
                 (sort (nameList ?store))"
    using assms(7) by (auto simp: saveReport_def Let_def split: if_splits option.splits)
  show ?thesis
    using listed nil by (simp add: files)
qed

theorem directory_is_listed_with_a_null_entry_witness:
  "findSymlinks dirFs [''/tmp''] ''/'' = Done (Map.empty(''/tmp'' \<mapsto> None)) \<and>
   rangeOrder (Map.empty(''/tmp'' \<mapsto> (None :: artifactProps option))) [''/tmp''] \<and>
   Lstat dirFs ''/tmp'' = Inr \<lparr>st_Mode = ModeDir OR 0x1FF, st_Size = 4096\<rparr> \<and>
   \<not> IsRegular (ModeDir OR 0x1FF) \<and> (ModeDir OR 0x1FF) AND ModeSymlink = 0 \<and>
   saveReport dirFs (prepareArtifacts dirFs [''/tmp'']
       (newArtifactStore ''/opt/dockerslim/artifacts'' (newReport 7 1) (Map.empty(''/tmp'' \<mapsto> None))))
     = Done \<lparr>Monitor = newReport 7 1, Files = [None]\<rparr> \<and>
   ''/tmp'' \<in> set (nameList (prepareArtifacts dirFs [''/tmp'']
       (newArtifactStore ''/opt/dockerslim/artifacts'' (newReport 7 1) (Map.empty(''/tmp'' \<mapsto> None))))) \<and>
   Files \<lparr>Monitor = newReport 7 1, Files = [None]\<rparr> ! 0 = None"
proof -
  let ?names = "Map.empty(''/tmp'' \<mapsto> (None :: artifactProps option))"
  let ?store = "prepareArtifacts dirFs [''/tmp'']
       (newArtifactStore ''/opt/dockerslim/artifacts'' (newReport 7 1) ?names)"
  have find: "findSymlinks dirFs [''/tmp''] ''/'' = Done ?names"
    by (simp add: resolver_defs dirFs_def procGone_def)
  have order: "rangeOrder ?names [''/tmp'']"
    by (simp add: rangeOrder_def)
  have key: "''/tmp'' \<in> dom ?names"
    by simp
  have lstat: "Lstat dirFs ''/tmp'' = Inr \<lparr>st_Mode = ModeDir OR 0x1FF, st_Size = 4096\<rparr>"
    by (simp add: dirFs_def procGone_def)
  have mode: "\<not> IsRegular (st_Mode \<lparr>st_Mode = ModeDir OR 0x1FF, st_Size = 4096\<rparr>)"
    "st_Mode \<lparr>st_Mode = ModeDir OR 0x1FF, st_Size = 4096\<rparr> AND ModeSymlink = 0"
    by (simp_all add: IsRegular_def ModeDir_def ModeSymlink_def ModeType_def)
  have store: "nameList ?store = [''/tmp'']" "rawNames ?store = ?names" "monReport ?store = newReport 7 1"
    using lstat mode
    by (simp_all add: prepareArtifacts_def prepareArtifact_def newArtifactStore_def Let_def)
  have save: "saveReport dirFs ?store = Done \<lparr>Monitor = newReport 7 1, Files = [None]\<rparr>"
    by (simp add: saveReport_def store Let_def) (simp add: dirFs_def procGone_def)
  from directory_is_listed_with_a_null_entry [OF find order key lstat mode save] find order lstat mode save
  show ?thesis by simp
qed

subsection \<open>A run without events\<close>

lemma Split_line:
  "sep \<notin> set a \<Longrightarrow> Split (a @ sep # rest) sep = a # Split rest sep"
  by (induction a) auto

lemma Split_length: "length (Split s sep) = Suc (count_list s sep)"
  by (induction s) (auto split: list.splits)

lemma Split_two: "sep \<in> set s \<Longrightarrow> 2 \<le> length (Split s sep)"
  using count_list_0_iff [of s sep] by (simp add: Split_length Suc_le_eq)

lemma digit_at: "k < 10 \<Longrightarrow> isDigit (''0123456789'' ! k)"
proof -
  have "list_all isDigit ''0123456789''"
    by (simp add: isDigit_def)
  then show "k < 10 \<Longrightarrow> isDigit (''0123456789'' ! k)"
    unfolding list_all_length by simp
qed

lemma decimal_digits: "list_all isDigit (decimal n)"
proof (induction n rule: decimal.induct)
  case (1 n)
  show ?case
  proof (cases "n < 10")
    case True
    have "decimal n = [''0123456789'' ! n]"
      using True by (subst decimal.simps) simp
    then show ?thesis using digit_at [OF True] by simp
  next
    case False
    have e: "decimal n = decimal (n div 10) @ [''0123456789'' ! (n mod 10)]"
      using False by (subst decimal.simps) simp
    have "n mod 10 < 10" by simp
    from digit_at [OF this] 1 [OF False] show ?thesis
      unfolding e by simp
  qed
qed

lemma decimal_nonempty: "decimal n \<noteq> []"
proof (cases "n < 10")
  case True
  then have "decimal n = [''0123456789'' ! n]" by (subst decimal.simps) simp
  then show ?thesis by simp
next
  case False
  then have "decimal n = decimal (n div 10) @ [''0123456789'' ! (n mod 10)]"
    by (subst decimal.simps) simp
  then show ?thesis by simp
qed

lemma digit_plain: "isDigit c \<Longrightarrow> \<not> isSpace c \<and> c \<noteq> newline"
  by (auto simp: isDigit_def isSpace_def newline_def)

lemma minus_plain: "\<not> isSpace CHR ''-'' \<and> CHR ''-'' \<noteq> newline"
  by (simp add: isSpace_def newline_def)

lemma Itoa_plain:
  assumes "c \<in> set (Itoa i)"
  shows "\<not> isSpace c \<and> c \<noteq> newline"
proof (cases "i < 0")
  case True
  then have "Itoa i = CHR ''-'' # decimal (nat (- i))"
    by (simp only: Itoa_def if_True)
  then have "c = CHR ''-'' \<or> c \<in> set (decimal (nat (- i)))"
    using assms by (simp only: set_simps insert_iff)
  then show ?thesis
  proof
    assume "c = CHR ''-''"
    then show ?thesis using minus_plain by simp
  next
    assume "c \<in> set (decimal (nat (- i)))"
    then have "isDigit c"
      using decimal_digits [of "nat (- i)"] by (simp only: list_all_iff)
    then show ?thesis by (rule digit_plain)
  qed
next
  case False
  then have "Itoa i = decimal (nat i)"
    by (simp only: Itoa_def if_False)
  then have "c \<in> set (decimal (nat i))"
    using assms by (simp only:)
  then have "isDigit c"
    using decimal_digits [of "nat i"] by (simp only: list_all_iff)
  then show ?thesis by (rule digit_plain)
qed

lemma Itoa_nonempty: "Itoa i \<noteq> []"
  unfolding Itoa_def using decimal_nonempty by (cases "i < 0") simp_all


lemma TrimSpace_listing_line:
  assumes "\<not> list_all isSpace p"
  shows "TrimSpace (Itoa i @ CHR '' '' # p) = Itoa i @ CHR '' '' # rev (dropWhile isSpace (rev p))"
proof -
  obtain x xs where x: "Itoa i = x # xs"
    using Itoa_nonempty [of i] by (cases "Itoa i") simp_all
  have "\<not> isSpace x"
    using Itoa_plain [of x i] x by simp
  then have left: "dropWhile isSpace (Itoa i @ CHR '' '' # p) = Itoa i @ CHR '' '' # p"
    by (simp add: x)
  from assms obtain c where c: "c \<in> set (rev p)" "\<not> isSpace c"
    by (auto simp: list_all_iff)
  have "dropWhile isSpace (rev p @ CHR '' '' # rev (Itoa i))
        = dropWhile isSpace (rev p) @ CHR '' '' # rev (Itoa i)"
    using c by (rule dropWhile_append1)
  then show ?thesis
    by (simp add: TrimSpace_def left)
qed

lemma listing_line_fields:
  assumes "\<not> list_all isSpace p"
  shows "2 \<le> length (Split (TrimSpace (Itoa i @ CHR '' '' # p)) CHR '' '')"
  by (rule Split_two) (simp add: TrimSpace_listing_line [OF assms])

lemma Split_listing:
  assumes "list_all (\<lambda>(i, p). plainPath p) entries"
  shows "Split (concat (map (\<lambda>(i, p). Itoa i @ '' '' @ p @ [newline]) entries)) newline
         = map (\<lambda>(i, p). Itoa i @ CHR '' '' # p) entries @ [[]]"
  using assms
proof (induction entries)
  case Nil
  then show ?case by simp
next
  case (Cons e entries)
  obtain i p where e: "e = (i, p)" by (cases e)
  have p: "newline \<notin> set p" using Cons.prems by (simp add: e plainPath_def)
  have "newline \<notin> set (Itoa i)" using Itoa_plain [of newline i] by blast
  then have a: "newline \<notin> set (Itoa i @ CHR '' '' # p)"
    using p by (simp add: newline_def)
  have rest: "list_all (\<lambda>(i, p). plainPath p) entries" using Cons.prems by simp
  have "concat (map (\<lambda>(i, p). Itoa i @ '' '' @ p @ [newline]) (e # entries))
        = (Itoa i @ CHR '' '' # p) @ newline # concat (map (\<lambda>(i, p). Itoa i @ '' '' @ p @ [newline]) entries)"
    by (simp add: e)
  then show ?case
    using Split_line [OF a] Cons.IH [OF rest] by (simp add: e)
qed

lemma inodeIndex_returns:
  assumes "\<forall>v\<in>set lines. Atoi (Split (TrimSpace v) CHR '' '' ! 0) = None
                          \<or> 2 \<le> length (Split (TrimSpace v) CHR '' '')"
  shows "\<exists>idx. inodeIndex lines inodeToFiles = Done idx"
  using assms
proof (induction lines arbitrary: inodeToFiles)
  case Nil
  then show ?case by simp
next
  case (Cons v lines)
  have rest: "\<forall>v\<in>set lines. Atoi (Split (TrimSpace v) CHR '' '' ! 0) = None
                          \<or> 2 \<le> length (Split (TrimSpace v) CHR '' '')"
    using Cons.prems by simp
  have this_line: "Atoi (Split (TrimSpace v) CHR '' '' ! 0) = None
                   \<or> 2 \<le> length (Split (TrimSpace v) CHR '' '')"
    using Cons.prems by simp
  show ?case
  proof (cases "Atoi (Split (TrimSpace v) CHR '' '' ! 0)")
    case None
    then show ?thesis using Cons.IH [OF rest] by (simp add: Let_def)
  next
    case (Some inode)
    then have "\<not> length (Split (TrimSpace v) CHR '' '') < 2"
      using this_line by simp
    then show ?thesis using Some Cons.IH [OF rest] by (simp add: Let_def)
  qed
qed

lemma findSymlinks_nothing_observed:
  assumes "plainListing fs mp"
  shows "findSymlinks fs [] mp = Done Map.empty"
proof -
  have lines: "Split (findOutput fs mp) newline
               = map (\<lambda>(i, p). Itoa i @ CHR '' '' # p) (FindEntries fs mp) @ [[]]"
    using assms unfolding findOutput_def plainListing_def by (rule Split_listing)
  have ok: "\<forall>v\<in>set (Split (findOutput fs mp) newline).
              Atoi (Split (TrimSpace v) CHR '' '' ! 0) = None
              \<or> 2 \<le> length (Split (TrimSpace v) CHR '' '')"
  proof
    fix v assume "v \<in> set (Split (findOutput fs mp) newline)"
    then consider "v = []" | i p where "(i, p) \<in> set (FindEntries fs mp)" "v = Itoa i @ CHR '' '' # p"
      unfolding lines by auto
    then show "Atoi (Split (TrimSpace v) CHR '' '' ! 0) = None
               \<or> 2 \<le> length (Split (TrimSpace v) CHR '' '')"
    proof cases
      case 1
      then show ?thesis by (simp add: TrimSpace_def Atoi_def)
    next
      case 2
      then have "plainPath p"
        using assms by (auto simp: plainListing_def list_all_iff)
      then show ?thesis
        using listing_line_fields [of p i] 2 by (simp add: plainPath_def)
    qed
  qed
  obtain idx where idx: "inodeIndex (Split (findOutput fs mp) newline) (\<lambda>i. []) = Done idx"
    using inodeIndex_returns [OF ok] by blast
  have none: "filesToInodes fs [] = []"
    by (simp add: filesToInodes_def statOutput_def TrimSpace_def Atoi_def List.map_filter_def)
  show ?thesis
    by (simp add: findSymlinks_def Let_def idx none)
qed


text \<open>
  When the stop signal comes before any event, the aggregator delivers the report it
  started with: \<open>EventCount\<close> 0, no main process, a \<open>Processes\<close> map without keys (the
  nil map) and an empty \<open>ProcessFiles\<close>. On a file system whose listing has plain paths
  and whose artifact directory can be written, \<open>monitor\<close> then resolves no name, attempts
  no copy and no link, and writes the report with that monitor part and no files.
\<close>

lemma report_written_on_plain_listing:
  assumes "plainListing fs ''/''"
    and "ArtifactDirReady fs"
    and "WriteFile fs ''/opt/dockerslim/artifacts/creport.json'' = None"
    and "rangeOrder (ProcessFiles (newReport mpid mppid)) pids"
    and "\<forall>names. findSymlinks fs (concat (map paths pids)) ''/'' = Done names
                  \<longrightarrow> rangeOrder names order"
  shows "listenEvents mpid mppid [] = Done (newReport mpid mppid) \<and>
         EventCount (newReport mpid mppid) = 0 \<and>
         MainProcess (newReport mpid mppid) = None \<and>
         Processes (newReport mpid mppid) = None \<and>
         mapLookup (Processes (newReport mpid mppid)) = Map.empty \<and>
         ProcessFiles (newReport mpid mppid) = Map.empty \<and>
         monitor_finish fs (newReport mpid mppid) pids paths order
           = Done (\<lparr>Monitor = newReport mpid mppid, Files = []\<rparr>, {})"
proof -
  have pids: "pids = []"
    using assms(4) by (simp add: rangeOrder_def newReport_def)
  have find: "findSymlinks fs (concat (map paths pids)) ''/'' = Done Map.empty"
    using findSymlinks_nothing_observed [OF assms(1)] by (simp add: pids)
  have order: "order = []"
    using assms(5) find by (simp add: rangeOrder_def)
  have save: "saveResults fs (newReport mpid mppid) Map.empty []
              = Done (\<lparr>Monitor = newReport mpid mppid, Files = []\<rparr>, {})"
    using assms(2,3)
    by (simp add: saveResults_def prepareArtifacts_def saveReport_def saveArtifacts_def
        newArtifactStore_def Let_def)
  have finish: "monitor_finish fs (newReport mpid mppid) pids paths order
                = Done (\<lparr>Monitor = newReport mpid mppid, Files = []\<rparr>, {})"
    using find save by (simp add: monitor_finish_def order)
  have fields: "EventCount (newReport mpid mppid) = 0" "MainProcess (newReport mpid mppid) = None"
    "Processes (newReport mpid mppid) = None"
    "mapLookup (Processes (newReport mpid mppid)) = Map.empty"
    "ProcessFiles (newReport mpid mppid) = Map.empty"
    by (simp_all add: newReport_def mapLookup_def fun_eq_iff)
  show ?thesis
    using finish fields by (simp add: listenEvents_def)
qed

text \<open>
  Claim C9. The run ends without any event, the artifact directory is ready and writable,
  and the file system holds a file whose name has a newline followed by digits. \<open>find\<close>
  prints that name over two lines, the second of which is a number alone: the resolver
  takes it for an inode, \<open>info[1]\<close> is out of range, and \<open>monitor\<close> panics before
  \<open>saveReport\<close> runs. No report is written.
\<close>

theorem newline_in_a_name_stops_the_report:
  "listenEvents 7 1 [] = Done (newReport 7 1) \<and>
   ArtifactDirReady newlineFs \<and>
   WriteFile newlineFs ''/opt/dockerslim/artifacts/creport.json'' = None \<and>
   findOutput newlineFs ''/''
     = ''2 /'' @ [newline] @ ''3 /tmp'' @ [newline] @ ''15 /tmp/a'' @ [newline] @ ''12'' @ [newline] \<and>
   monitor_finish newlineFs (newReport 7 1) [] (\<lambda>pid. []) [] = Panic IndexOutOfRange"
  by (simp add: listenEvents_def monitor_finish_def resolver_defs newlineFs_def procGone_def)

end
